theory Spec2Isabelle
  imports Main "HOL-Library.Char_ord" "HOL-Library.List_Lexorder"
begin

section \<open>JavaScript values\<close>

text \<open>
  The values that flow through the protocol: the JSON kinds, plus \<open>undefined\<close> and
  functions, which \<open>stableStringify\<close> tests for. A string is a list of code units (the
  ones below 256). A number \<open>JNum n\<close> is the Number \<open>n\<close> for a safe integer \<open>n\<close>
  (\<open>safe_integer\<close> below), as \<open>Date.now()\<close> yields (the argument \<open>now\<close> of the functions
  that read the clock); fractions, \<open>-0\<close>, \<open>NaN\<close>, the infinities and the integers beyond
  that range have no counterpart here. An object is the list of its own enumerable
  properties in creation order, all of them data properties with string keys, so its
  keys are pairwise distinct; its prototype is \<open>Object.prototype\<close>. An array has its
  elements and nothing else of its own. A function is known by its source text only,
  the result of converting it to a string, and has no properties of its own. Values
  are finite trees: there are no cyclic objects, and no \<open>BigInt\<close> or symbol values.
\<close>

datatype jsval =
    JUndefined
  | JNull
  | JBool bool
  | JNum int
  | JStr string
  | JArr "jsval list"
  | JObj "(string \<times> jsval) list"
  | JFun string

text \<open>
  What can be thrown: an \<open>Error\<close> or \<open>TypeError\<close> instance with its message, or any
  other value (\<open>throw x\<close>).
\<close>

datatype exception =
    Error string
  | TypeError string
  | Thrown jsval

text \<open>\<open>obj[key]\<close>: the property's value, \<open>undefined\<close> when there is none.\<close>

definition get_prop :: "(string \<times> jsval) list \<Rightarrow> string \<Rightarrow> jsval" where
  "get_prop kvs key = (case map_of kvs key of None \<Rightarrow> JUndefined | Some v \<Rightarrow> v)"

text \<open>\<open>obj[key] = v\<close>: an existing property keeps its place, a new one goes last.\<close>

fun set_prop :: "(string \<times> jsval) list \<Rightarrow> string \<Rightarrow> jsval \<Rightarrow> (string \<times> jsval) list" where
  "set_prop [] key v = [(key, v)]"
| "set_prop ((k, w) # kvs) key v =
     (if k = key then (key, v) # kvs else (k, w) # set_prop kvs key v)"

definition is_function :: "jsval \<Rightarrow> bool" where
  "is_function v = (case v of JFun _ \<Rightarrow> True | _ \<Rightarrow> False)"

subsection \<open>Text of numbers and strings\<close>

definition hex_digit :: "nat \<Rightarrow> char" where
  "hex_digit n = ''0123456789abcdef'' ! n"

text \<open>The decimal digits of a number that is not negative.\<close>

function digits :: "int \<Rightarrow> string" where
  "digits n =
     (if n < 10 then [hex_digit (nat n)] else digits (n div 10) @ [hex_digit (nat (n mod 10))])"
  by pat_completeness auto
termination
  by (relation "measure nat") auto

declare digits.simps [simp del]

text \<open>
  The text of a number, for \<open>JSON.stringify\<close> and for the conversion to a string alike:
  a safe integer, one between \<open>-(2^53 - 1)\<close> and \<open>2^53 - 1\<close>, is printed in plain
  decimal digits. (From \<open>10^21\<close> on JavaScript prints an exponent; \<open>number_text\<close> is
  meant below that only.)
\<close>

definition safe_integer :: "int \<Rightarrow> bool" where
  "safe_integer n = (- 9007199254740991 \<le> n \<and> n \<le> 9007199254740991)"

definition number_text :: "int \<Rightarrow> string" where
  "number_text i = (if i < 0 then CHR ''-'' # digits (- i) else digits i)"

text \<open>
  \<open>JSON.stringify\<close> of a string: the double quote (0x22) and the backslash (0x5C) are
  escaped with a backslash, the control characters by their short form or as a
  backslash, \<open>u00\<close> and two hexadecimal digits, everything else is kept.
\<close>

definition escape_char :: "char \<Rightarrow> string" where
  "escape_char c =
     (if c = CHR 0x22 then [CHR 0x5C, CHR 0x22]
      else if c = CHR 0x5C then [CHR 0x5C, CHR 0x5C]
      else if c = CHR 0x08 then [CHR 0x5C, CHR ''b'']
      else if c = CHR 0x0C then [CHR 0x5C, CHR ''f'']
      else if c = CHR 0x0A then [CHR 0x5C, CHR ''n'']
      else if c = CHR 0x0D then [CHR 0x5C, CHR ''r'']
      else if c = CHR 0x09 then [CHR 0x5C, CHR ''t'']
      else if (of_char c :: nat) < 32
        then [CHR 0x5C, CHR ''u'', CHR ''0'', CHR ''0'',
              hex_digit (of_char c div 16), hex_digit (of_char c mod 16)]
      else [c])"

definition quote :: "string \<Rightarrow> string" where
  "quote s = [CHR 0x22] @ concat (map escape_char s) @ [CHR 0x22]"

fun join :: "string \<Rightarrow> string list \<Rightarrow> string" where
  "join sep [] = []"
| "join sep [x] = x"
| "join sep (x # y # ys) = x @ sep @ join sep (y # ys)"

text \<open>
  \<open>Array.prototype.join\<close> on an array of strings and \<open>undefined\<close>s: an \<open>undefined\<close>
  element contributes the empty string.
\<close>

definition array_join :: "string \<Rightarrow> string option list \<Rightarrow> string" where
  "array_join sep items =
     join sep (map (\<lambda>item. case item of None \<Rightarrow> [] | Some s \<Rightarrow> s) items)"

text \<open>A template literal's \<open>${v}\<close> for a string or \<open>undefined\<close>.\<close>

definition template :: "string option \<Rightarrow> string" where
  "template v = (case v of None \<Rightarrow> ''undefined'' | Some s \<Rightarrow> s)"

subsection \<open>The conversion to a string\<close>

text \<open>
  What calling a function value does is a parameter, as the function is known by its
  source text only: \<open>call src this\<close> is the call of the function with the source \<open>src\<close>
  on the receiver \<open>this\<close>, without arguments. Like a schema's \<open>parse\<close> and like the
  backend, it returns a value or throws.
\<close>

type_synonym calls = "string \<Rightarrow> jsval \<Rightarrow> exception + jsval"

text \<open>The conversion of a primitive value to a string; an object has none.\<close>

definition primitive_text :: "jsval \<Rightarrow> string option" where
  "primitive_text v =
     (case v of
        JUndefined \<Rightarrow> Some ''undefined''
      | JNull \<Rightarrow> Some ''null''
      | JBool b \<Rightarrow> Some (if b then ''true'' else ''false'')
      | JNum n \<Rightarrow> Some (number_text n)
      | JStr s \<Rightarrow> Some s
      | _ \<Rightarrow> None)"

text \<open>
  The conversion of an object to a string tries the object's \<open>toString\<close> and then its
  \<open>valueOf\<close>: a method that is a function is called, and decides if it throws or
  returns a primitive value; a method that is not a function, or that returns an
  object, is passed over. \<open>call_method\<close> is one such trial, \<open>None\<close> when it is passed
  over.
\<close>

definition call_method :: "calls \<Rightarrow> jsval \<Rightarrow> jsval \<Rightarrow> (exception + string) option" where
  "call_method call this m =
     (case m of
        JFun src \<Rightarrow>
          (case call src this of
             Inl err \<Rightarrow> Some (Inl err)
           | Inr v \<Rightarrow> (case primitive_text v of None \<Rightarrow> None | Some s \<Rightarrow> Some (Inr s)))
      | _ \<Rightarrow> None)"

text \<open>
  A plain object without a \<open>toString\<close> of its own inherits the one of
  \<open>Object.prototype\<close>, which returns \<open>[object Object]\<close>; without a \<open>valueOf\<close> of its
  own it inherits the one that returns the object itself, which is passed over. When
  neither method decides, the conversion throws a \<open>TypeError\<close>.
\<close>

definition object_text :: "calls \<Rightarrow> (string \<times> jsval) list \<Rightarrow> exception + string" where
  "object_text call kvs =
     (case (case map_of kvs ''toString'' of
              None \<Rightarrow> Some (Inr ''[object Object]'')
            | Some m \<Rightarrow> call_method call (JObj kvs) m) of
        Some r \<Rightarrow> r
      | None \<Rightarrow>
          (case (case map_of kvs ''valueOf'' of
                   None \<Rightarrow> None
                 | Some m \<Rightarrow> call_method call (JObj kvs) m) of
             Some r \<Rightarrow> r
           | None \<Rightarrow> Inl (TypeError ''Cannot convert object to primitive value'')))"

text \<open>The texts of a list of conversions made from left to right, or what the first failing one throws.\<close>

fun all_texts :: "(exception + string) list \<Rightarrow> exception + string list" where
  "all_texts [] = Inr []"
| "all_texts (Inl err # rest) = Inl err"
| "all_texts (Inr s # rest) =
     (case all_texts rest of Inl err \<Rightarrow> Inl err | Inr ss \<Rightarrow> Inr (s # ss))"

text \<open>
  The conversion to a string that a template literal applies to any value: an array
  joins the texts of its elements with commas (\<open>null\<close> and \<open>undefined\<close> elements
  empty), a function gives its source text.
\<close>

function toString :: "calls \<Rightarrow> jsval \<Rightarrow> exception + string" where
  "toString call JUndefined = Inr ''undefined''"
| "toString call JNull = Inr ''null''"
| "toString call (JBool b) = Inr (if b then ''true'' else ''false'')"
| "toString call (JNum n) = Inr (number_text n)"
| "toString call (JStr s) = Inr s"
| "toString call (JArr items) =
     (case all_texts (map (\<lambda>item. if item = JUndefined \<or> item = JNull then Inr []
                                   else toString call item) items) of
        Inl err \<Rightarrow> Inl err
      | Inr ts \<Rightarrow> Inr (join '','' ts))"
| "toString call (JObj kvs) = object_text call kvs"
| "toString call (JFun src) = Inr src"
  by pat_completeness auto
termination
proof (relation "measure (\<lambda>(call, v). size v)", goal_cases)
  case 1
  show ?case by simp
next
  case (2 call items item)
  then show ?case
    by (induction items) auto
qed

section \<open>identity-manager.js\<close>

subsection \<open>stableStringify\<close>

text \<open>
  The first six equations are the branch \<open>typeof obj !== 'object' || obj === null\<close>,
  which returns \<open>JSON.stringify(obj)\<close>: that is \<open>undefined\<close> (here \<open>None\<close>) for
  \<open>undefined\<close> and for a function. An array maps and joins. An object sorts
  \<open>Object.keys(obj)\<close> (the default sort: by code units) and pushes one part for every
  key whose value is neither \<open>undefined\<close> nor a function.
\<close>

function stableStringify :: "jsval \<Rightarrow> string option" where
  "stableStringify JUndefined = None"
| "stableStringify (JFun src) = None"
| "stableStringify JNull = Some ''null''"
| "stableStringify (JBool b) = Some (if b then ''true'' else ''false'')"
| "stableStringify (JNum n) = Some (number_text n)"
| "stableStringify (JStr s) = Some (quote s)"
| "stableStringify (JArr items) =
     Some (''['' @ array_join '','' (map stableStringify items) @ '']'')"
| "stableStringify (JObj kvs) =
     Some (''{'' @ join '',''
       (concat (map (\<lambda>key.
          let v = get_prop kvs key in
          if v \<noteq> JUndefined \<and> \<not> is_function v
          then [quote key @ '':'' @ template (stableStringify v)]
          else [])
        (sort (map fst kvs)))) @ ''}'')"
  by pat_completeness auto
termination
proof (relation "measure size", goal_cases)
  case 1
  show ?case by simp
next
  case (2 items x)
  then show ?case
    by (induction items) auto
next
  case (3 kvs key v)
  have lookup_smaller:
    "map_of xs k = Some w \<Longrightarrow> size w < Suc (size_list (size_prod (\<lambda>_. 0) size) xs)"
    for xs :: "(string \<times> jsval) list" and k w
    by (induction xs) (auto split: if_splits)
  from 3 obtain w where "map_of kvs key = Some w" "v = w"
    by (auto simp: get_prop_def split: option.splits)
  then show ?case
    using lookup_smaller [of kvs key w] by simp
qed

subsection \<open>The cryptographic backend\<close>

text \<open>
  Node's \<open>crypto\<close> module is not part of the repository; it is a parameter.
  \<open>backend_sign key bytes\<close> stands for
  \<open>createSign('SHA256').update(bytes).sign(key, 'hex')\<close> and
  \<open>backend_verify bytes key signature\<close> for
  \<open>createVerify('SHA256').update(bytes).verify(key, signature, 'hex')\<close>, each on a
  string \<open>bytes\<close>; either may throw. \<open>update\<close> itself throws a \<open>TypeError\<close> when its
  argument is not a string (or a buffer), which is what it gets when
  \<open>stableStringify\<close> returns \<open>undefined\<close>.
\<close>

record crypto =
  backend_sign :: "string \<Rightarrow> string \<Rightarrow> exception + string"
  backend_verify :: "string \<Rightarrow> jsval \<Rightarrow> jsval \<Rightarrow> exception + bool"

definition update_type_error :: exception where
  "update_type_error = TypeError
     (''The '' @ [CHR 0x22] @ ''data'' @ [CHR 0x22] @ '' argument must be of type string or an ''
      @ ''instance of Buffer, TypedArray, or DataView. Received undefined'')"

text \<open>
  An identity as its constructor leaves it: the keys are the ones passed in, or the
  pair the backend generated.
\<close>

record IdentityManager =
  name :: string
  identity_id :: string
  privateKey :: string
  publicKey :: string

definition getIdentity :: "IdentityManager \<Rightarrow> string \<times> string" where
  "getIdentity idn = (identity_id idn, publicKey idn)"

definition sign :: "crypto \<Rightarrow> IdentityManager \<Rightarrow> jsval \<Rightarrow> exception + string" where
  "sign cb idn data =
     (case stableStringify data of
        None \<Rightarrow> Inl update_type_error
      | Some payload \<Rightarrow> backend_sign cb (privateKey idn) payload)"

text \<open>
  \<open>verify\<close>: the canonical form and \<open>update\<close> come before the \<open>try\<close>; only the
  backend's \<open>verify\<close> call is inside it, and whatever it throws becomes \<open>false\<close>.
\<close>

definition verify :: "crypto \<Rightarrow> jsval \<Rightarrow> jsval \<Rightarrow> jsval \<Rightarrow> exception + bool" where
  "verify cb data signature pubKey =
     (case stableStringify data of
        None \<Rightarrow> Inl update_type_error
      | Some payload \<Rightarrow>
          (case backend_verify cb payload pubKey signature of
             Inl err \<Rightarrow> Inr False
           | Inr ok \<Rightarrow> Inr ok))"

section \<open>capability-manager.js\<close>

text \<open>
  A schema is known by its \<open>parse\<close>: it returns the parsed value or throws. The
  registry is the array \<open>capabilities\<close>; \<open>Date.now()\<close> is the argument \<open>now\<close>.
\<close>

type_synonym schema = "jsval \<Rightarrow> exception + jsval"

record Capability =
  cap_id :: string
  cap_name :: string
  inputSchemaZod :: schema
  outputSchemaZod :: schema
  description :: string
  constraints :: jsval

record CapabilityManager =
  executorIdentity :: "string \<times> string"
  capabilities :: "Capability list"

text \<open>The white space characters of a regular expression, among the code units below 256.\<close>

definition is_space :: "char \<Rightarrow> bool" where
  "is_space c =
     (c \<in> set [CHR 0x09, CHR 0x0A, CHR 0x0B, CHR 0x0C, CHR 0x0D, CHR 0x20, CHR 0xA0])"

definition lower_char :: "char \<Rightarrow> char" where
  "lower_char c =
     (let n = (of_char c :: nat) in
      if (65 \<le> n \<and> n \<le> 90) \<or> (192 \<le> n \<and> n \<le> 222 \<and> n \<noteq> 215)
      then char_of (n + 32) else c)"

definition toLowerCase :: "string \<Rightarrow> string" where
  "toLowerCase s = map lower_char s"

text \<open>
  The \<open>replace\<close> call of \<open>registerCapability\<close>: every maximal run of white space
  becomes one underscore.
\<close>

function replace_spaces :: "string \<Rightarrow> string" where
  "replace_spaces [] = []"
| "replace_spaces (c # cs) =
     (if is_space c then CHR ''_'' # replace_spaces (dropWhile is_space cs)
      else c # replace_spaces cs)"
  by pat_completeness auto
termination
  by (relation "measure length") (auto simp: length_dropWhile_le less_Suc_eq_le)

definition new_capability_id :: "string \<Rightarrow> int \<Rightarrow> string" where
  "new_capability_id nm now =
     ''cap_'' @ replace_spaces (toLowerCase nm) @ ''_'' @ number_text now"

definition registerCapability ::
  "int \<Rightarrow> CapabilityManager \<Rightarrow> string \<Rightarrow> schema \<Rightarrow> schema \<Rightarrow> jsval
     \<Rightarrow> Capability \<times> CapabilityManager" where
  "registerCapability now cm nm inputSchema outputSchema cons =
     (let capability = \<lparr>cap_id = new_capability_id nm now, cap_name = nm,
            inputSchemaZod = inputSchema, outputSchemaZod = outputSchema,
            description = ''Capability for '' @ nm, constraints = cons\<rparr>
      in (capability, cm\<lparr>capabilities := capabilities cm @ [capability]\<rparr>))"

text \<open>
  \<open>validateCapability\<close>: \<open>find\<close> returns the first capability whose id is strictly equal
  to \<open>capabilityId\<close>, so only a string can match. When there is none, the message of
  the error takes \<open>capabilityId\<close> as a string, a conversion that may itself throw.
\<close>

definition validateCapability ::
  "calls \<Rightarrow> CapabilityManager \<Rightarrow> jsval \<Rightarrow> jsval \<Rightarrow> exception + jsval" where
  "validateCapability call cm capabilityId input =
     (case find (\<lambda>c. JStr (cap_id c) = capabilityId) (capabilities cm) of
        None \<Rightarrow>
          (case toString call capabilityId of
             Inl err \<Rightarrow> Inl err
           | Inr text \<Rightarrow> Inl (Error (''Capability not found: '' @ text)))
      | Some cap \<Rightarrow> inputSchemaZod cap input)"

section \<open>executor.js\<close>

text \<open>
  What a handler does with its argument, as far as the pipeline sees it: the promise
  resolves, rejects (or the handler throws), or never settles.
\<close>

datatype outcome = Resolves jsval | Throws jsval | Never

type_synonym handler = "jsval \<Rightarrow> outcome"

record Executor =
  identity :: IdentityManager
  capabilityManager :: CapabilityManager
  handlers :: "string \<rightharpoonup> handler"

definition new_Executor :: "IdentityManager \<Rightarrow> Executor" where
  "new_Executor idn =
     \<lparr>identity = idn,
      capabilityManager = \<lparr>executorIdentity = getIdentity idn, capabilities = []\<rparr>,
      handlers = Map.empty\<rparr>"

definition addCapability ::
  "int \<Rightarrow> Executor \<Rightarrow> string \<Rightarrow> schema \<Rightarrow> schema \<Rightarrow> handler \<Rightarrow> Capability \<times> Executor" where
  "addCapability now ex nm inputSchema outputSchema h =
     (let (cap, cm) =
            registerCapability now (capabilityManager ex) nm inputSchema outputSchema (JObj [])
      in (cap, ex\<lparr>capabilityManager := cm, handlers := (handlers ex)(cap_id cap \<mapsto> h)\<rparr>))"

text \<open>\<open>this.handlers.get(capabilityId)\<close>: the map's keys are strings.\<close>

definition handlers_get :: "(string \<rightharpoonup> handler) \<Rightarrow> jsval \<Rightarrow> handler option" where
  "handlers_get hs capabilityId = (case capabilityId of JStr s \<Rightarrow> hs s | _ \<Rightarrow> None)"

text \<open>\<open>err.message\<close>, which itself throws when \<open>err\<close> is \<open>null\<close> or \<open>undefined\<close>.\<close>

fun message_of :: "exception \<Rightarrow> exception + jsval" where
  "message_of (Error m) = Inr (JStr m)"
| "message_of (TypeError m) = Inr (JStr m)"
| "message_of (Thrown JUndefined) =
     Inl (TypeError (''Cannot read properties of undefined (reading ''
            @ [CHR 0x27] @ ''message'' @ [CHR 0x27] @ '')''))"
| "message_of (Thrown JNull) =
     Inl (TypeError (''Cannot read properties of null (reading ''
            @ [CHR 0x27] @ ''message'' @ [CHR 0x27] @ '')''))"
| "message_of (Thrown (JObj kvs)) = Inr (get_prop kvs ''message'')"
| "message_of (Thrown v) = Inr JUndefined"

text \<open>A parameter with the default \<open>null\<close> takes it when the argument is \<open>undefined\<close>.\<close>

definition default_null :: "jsval \<Rightarrow> jsval" where
  "default_null v = (if v = JUndefined then JNull else v)"

definition createSignedResult ::
  "crypto \<Rightarrow> int \<Rightarrow> Executor \<Rightarrow> jsval \<Rightarrow> string \<Rightarrow> jsval \<Rightarrow> jsval \<Rightarrow> exception + jsval" where
  "createSignedResult cb now ex taskId status result0 error0 =
     (let result = default_null result0;
          error = default_null error0;
          resultObject = [(''taskId'', taskId),
                          (''executorId'', JStr (identity_id (identity ex))),
                          (''status'', JStr status),
                          (''timestamp'', JNum now)];
          resultObject = (if status = ''success''
                          then set_prop resultObject ''result'' result
                          else set_prop resultObject ''error'' error)
      in case sign cb (identity ex) (JObj resultObject) of
           Inl err \<Rightarrow> Inl err
         | Inr signature \<Rightarrow> Inr (JObj (set_prop resultObject ''signature'' (JStr signature))))"

text \<open>
  How a call of \<open>executeTask\<close> ends: its promise is fulfilled, is rejected, or stays
  pending. \<open>executeTask\<close> returns that together with the list of the arguments the
  handler was called with.
\<close>

datatype completion = Returns jsval | Raises exception | Hangs

definition settle :: "exception + jsval \<Rightarrow> completion" where
  "settle r = (case r of Inl err \<Rightarrow> Raises err | Inr v \<Rightarrow> Returns v)"

text \<open>
  The \<open>catch (err)\<close> of step 4: a failure result carrying \<open>err.message\<close>.
\<close>

definition handler_failed :: "crypto \<Rightarrow> int \<Rightarrow> Executor \<Rightarrow> jsval \<Rightarrow> exception \<Rightarrow> completion" where
  "handler_failed cb now ex taskId err =
     (case message_of err of
        Inl err' \<Rightarrow> Raises err'
      | Inr m \<Rightarrow> settle (createSignedResult cb now ex taskId ''failure'' JNull m))"

text \<open>
  The two diagnostics that are template literals: each converts the value it quotes
  to a string, and throws what that conversion throws.
\<close>

definition not_supported :: "calls \<Rightarrow> jsval \<Rightarrow> exception + string" where
  "not_supported call capabilityId =
     (case toString call capabilityId of
        Inl err \<Rightarrow> Inl err
      | Inr text \<Rightarrow>
          Inr (''Capability '' @ [CHR 0x27] @ text @ [CHR 0x27]
                 @ '' not supported by this executor.''))"

definition validation_failed :: "calls \<Rightarrow> jsval \<Rightarrow> exception + string" where
  "validation_failed call message =
     (case toString call message of
        Inl err \<Rightarrow> Inl err
      | Inr text \<Rightarrow> Inr (''Schema Validation Failed: '' @ text))"

text \<open>
  The object whose canonical form the requester signed, rebuilt from the fields of
  the task; a field the task lacks is \<open>undefined\<close>.
\<close>

definition dataToVerify :: "(string \<times> jsval) list \<Rightarrow> jsval" where
  "dataToVerify signedTask =
     JObj [(''taskId'', get_prop signedTask ''taskId''),
           (''requesterId'', get_prop signedTask ''requesterId''),
           (''capabilityId'', get_prop signedTask ''capabilityId''),
           (''payload'', get_prop signedTask ''payload''),
           (''timestamp'', get_prop signedTask ''timestamp'')]"

text \<open>
  \<open>executeTask\<close>. The diagnostic of step 2 is built outside any \<open>try\<close>, the one of
  step 3 inside the \<open>catch\<close> block: what building them throws rejects the promise, and
  so does what \<open>_createSignedResult\<close> throws there.
\<close>

definition executeTask ::
  "crypto \<Rightarrow> calls \<Rightarrow> int \<Rightarrow> Executor \<Rightarrow> (string \<times> jsval) list
     \<Rightarrow> completion \<times> jsval list" where
  "executeTask cb call now ex signedTask =
     (let taskId = get_prop signedTask ''taskId'';
          capabilityId = get_prop signedTask ''capabilityId'';
          payload = get_prop signedTask ''payload'';
          signature = get_prop signedTask ''signature'';
          pubKey = get_prop signedTask ''publicKey''
      in case verify cb (dataToVerify signedTask) signature pubKey of
           Inl err \<Rightarrow> (Raises err, [])
         | Inr isValid \<Rightarrow>
             if \<not> isValid
             then (settle (createSignedResult cb now ex taskId ''failure'' JNull
                      (JStr ''Invalid Task Signature: Auth Failed'')), [])
             else
               (case handlers_get (handlers ex) capabilityId of
                  None \<Rightarrow>
                    (case not_supported call capabilityId of
                       Inl err \<Rightarrow> (Raises err, [])
                     | Inr diagnostic \<Rightarrow>
                         (settle (createSignedResult cb now ex taskId ''failure'' JNull
                            (JStr diagnostic)), []))
                | Some h \<Rightarrow>
                    (case validateCapability call (capabilityManager ex) capabilityId payload of
                       Inl e \<Rightarrow>
                         (case message_of e of
                            Inl err \<Rightarrow> (Raises err, [])
                          | Inr m \<Rightarrow>
                              (case validation_failed call m of
                                 Inl err \<Rightarrow> (Raises err, [])
                               | Inr diagnostic \<Rightarrow>
                                   (settle (createSignedResult cb now ex taskId ''failure'' JNull
                                      (JStr diagnostic)), [])))
                     | Inr validated \<Rightarrow>
                         (case h payload of
                            Never \<Rightarrow> (Hangs, [payload])
                          | Throws err \<Rightarrow>
                              (handler_failed cb now ex taskId (Thrown err), [payload])
                          | Resolves resultData \<Rightarrow>
                              (case createSignedResult cb now ex taskId ''success''
                                      resultData JUndefined of
                                 Inl err \<Rightarrow> (handler_failed cb now ex taskId err, [payload])
                               | Inr signedResult \<Rightarrow> (Returns signedResult, [payload]))))))"

section \<open>requester.js\<close>

text \<open>\<open>uuidv4()\<close> and \<open>Date.now()\<close> are the arguments \<open>uuid\<close> and \<open>now\<close>.\<close>

definition createTask ::
  "crypto \<Rightarrow> string \<Rightarrow> int \<Rightarrow> IdentityManager \<Rightarrow> jsval \<Rightarrow> jsval
     \<Rightarrow> exception + (string \<times> jsval) list" where
  "createTask cb uuid now idn capabilityId payload =
     (let taskData = [(''taskId'', JStr uuid), (''requesterId'', JStr (identity_id idn)),
                      (''capabilityId'', capabilityId), (''payload'', payload),
                      (''timestamp'', JNum now)]
      in case sign cb idn (JObj taskData) of
           Inl err \<Rightarrow> Inl err
         | Inr signature \<Rightarrow>
             Inr (set_prop (set_prop taskData ''signature'' (JStr signature))
                    ''publicKey'' (JStr (publicKey idn))))"

definition verifyResult :: "crypto \<Rightarrow> (string \<times> jsval) list \<Rightarrow> jsval \<Rightarrow> exception + bool" where
  "verifyResult cb signedResult executorPublicKey =
     (let signature = get_prop signedResult ''signature'';
          data = filter (\<lambda>(k, v). k \<noteq> ''signature'') signedResult
      in verify cb (JObj data) signature executorPublicKey)"

section \<open>Notions used in the statements\<close>

subsection \<open>Canonical form\<close>

text \<open>
  The part \<open>stableStringify\<close> pushes for a key of an object, and the test that decides
  whether it pushes one.
\<close>

definition part_of :: "(string \<times> jsval) list \<Rightarrow> string \<Rightarrow> string" where
  "part_of kvs key = quote key @ '':'' @ template (stableStringify (get_prop kvs key))"

definition emitted :: "(string \<times> jsval) list \<Rightarrow> string \<Rightarrow> bool" where
  "emitted kvs key = (get_prop kvs key \<noteq> JUndefined \<and> \<not> is_function (get_prop kvs key))"

text \<open>
  Two values are the same up to the order of keys: arrays element by element, in
  order; objects when they have the same keys and, under every key, values that are
  the same up to the order of keys; everything else when equal.
\<close>

function same_value :: "jsval \<Rightarrow> jsval \<Rightarrow> bool" where
  "same_value (JArr xs) (JArr ys) = list_all2 same_value xs ys"
| "same_value (JObj kvs) (JObj kvs') =
     (distinct (map fst kvs) \<and> distinct (map fst kvs')
      \<and> set (map fst kvs) = set (map fst kvs')
      \<and> (\<forall>key \<in> set (map fst kvs). same_value (get_prop kvs key) (get_prop kvs' key)))"
| "same_value (JArr xs) JUndefined = False"
| "same_value (JArr xs) JNull = False"
| "same_value (JArr xs) (JBool b) = False"
| "same_value (JArr xs) (JNum n) = False"
| "same_value (JArr xs) (JStr s) = False"
| "same_value (JArr xs) (JObj kvs) = False"
| "same_value (JArr xs) (JFun src) = False"
| "same_value (JObj kvs) JUndefined = False"
| "same_value (JObj kvs) JNull = False"
| "same_value (JObj kvs) (JBool b) = False"
| "same_value (JObj kvs) (JNum n) = False"
| "same_value (JObj kvs) (JStr s) = False"
| "same_value (JObj kvs) (JArr xs) = False"
| "same_value (JObj kvs) (JFun src) = False"
| "same_value JUndefined b = (b = JUndefined)"
| "same_value JNull b = (b = JNull)"
| "same_value (JBool x) b = (b = JBool x)"
| "same_value (JNum n) b = (b = JNum n)"
| "same_value (JStr s) b = (b = JStr s)"
| "same_value (JFun src) b = (b = JFun src)"
  by pat_completeness auto
termination
proof (relation "measure (\<lambda>(a, b). size a)", goal_cases)
  case 1
  show ?case by simp
next
  case (2 xs ys x y)
  then show ?case
    by (induction xs) auto
next
  case (3 kvs kvs' key)
  have lookup_smaller:
    "map_of xs k = Some w \<Longrightarrow> size w < Suc (size_list (size_prod (\<lambda>_. 0) size) xs)"
    for xs :: "(string \<times> jsval) list" and k w
    by (induction xs) (auto split: if_splits)
  from 3 obtain w where "map_of kvs key = Some w"
    by (cases "map_of kvs key") (auto simp: map_of_eq_None_iff)
  then show ?case
    using lookup_smaller [of kvs key w] by (simp add: get_prop_def)
qed

text \<open>
  A clean value has a canonical form that leaves nothing of it out: it is built from
  \<open>null\<close>, booleans, numbers, strings, arrays and objects alone, with no \<open>undefined\<close> and
  no function anywhere inside. Its numbers are safe integers and the keys of each of
  its objects are pairwise distinct, as they are for every value that occurs.
\<close>

fun clean :: "jsval \<Rightarrow> bool" where
  "clean JUndefined = False"
| "clean (JFun src) = False"
| "clean JNull = True"
| "clean (JBool b) = True"
| "clean (JNum n) = safe_integer n"
| "clean (JStr s) = True"
| "clean (JArr items) = (\<forall>item \<in> set items. clean item)"
| "clean (JObj kvs) = (distinct (map fst kvs) \<and> (\<forall>kv \<in> set kvs. clean (snd kv)))"

text \<open>
  The canonical form as a string, empty where \<open>stableStringify\<close> returns \<open>undefined\<close>.
  Inside a canonical form, the text of a value is followed by a comma, a closing
  bracket or brace, or nothing: \<open>stops\<close>.
\<close>

definition canonical :: "jsval \<Rightarrow> string" where
  "canonical a = (case stableStringify a of None \<Rightarrow> [] | Some s \<Rightarrow> s)"

definition stops :: "string \<Rightarrow> bool" where
  "stops r = (case r of [] \<Rightarrow> True | c # cs \<Rightarrow> c \<in> set '',]}'')"

subsection \<open>The backend\<close>

text \<open>
  \<open>paired\<close>: the backend signs every byte string with the private key, and accepts
  that signature under the public key. \<open>can_sign\<close>: the backend signs with the
  executor's private key, as it does with a key it generated.
\<close>

definition paired :: "crypto \<Rightarrow> string \<Rightarrow> string \<Rightarrow> bool" where
  "paired cb priv pub =
     (\<forall>bytes. \<exists>sg. backend_sign cb priv bytes = Inr sg
        \<and> backend_verify cb bytes (JStr pub) (JStr sg) = Inr True)"

definition can_sign :: "crypto \<Rightarrow> Executor \<Rightarrow> bool" where
  "can_sign cb ex = (\<forall>bytes. \<exists>sg. backend_sign cb (privateKey (identity ex)) bytes = Inr sg)"

subsection \<open>Tasks and results\<close>

text \<open>Step 1 of \<open>executeTask\<close>: the check of the task's signature.\<close>

definition authenticated :: "crypto \<Rightarrow> (string \<times> jsval) list \<Rightarrow> exception + bool" where
  "authenticated cb signedTask =
     verify cb (dataToVerify signedTask)
       (get_prop signedTask ''signature'') (get_prop signedTask ''publicKey'')"

definition signed_fields :: "string list" where
  "signed_fields = [''taskId'', ''requesterId'', ''capabilityId'', ''payload'', ''timestamp'']"

text \<open>The bytes that step 1 hands to the backend with the task's signature and key.\<close>

definition signed_bytes :: "(string \<times> jsval) list \<Rightarrow> string" where
  "signed_bytes signedTask = canonical (dataToVerify signedTask)"

text \<open>The fields of a result object before it is signed.\<close>

definition result_fields ::
  "int \<Rightarrow> Executor \<Rightarrow> jsval \<Rightarrow> string \<Rightarrow> string \<Rightarrow> jsval \<Rightarrow> (string \<times> jsval) list" where
  "result_fields now ex taskId status key v =
     [(''taskId'', taskId), (''executorId'', JStr (identity_id (identity ex))),
      (''status'', JStr status), (''timestamp'', JNum now), (key, v)]"

text \<open>
  The bytes of a result that are to be signed, written out: the fields of a result in
  the order of their keys, each with its key quoted, a colon and the canonical form of
  its value, separated by commas and in braces; a field that is \<open>undefined\<close> or a
  function is left out.
\<close>

definition result_text :: "(string \<times> jsval) list \<Rightarrow> string" where
  "result_text fs =
     ''{'' @ join '',''
       (map (part_of fs)
          (filter (emitted fs)
             [''error'', ''executorId'', ''result'', ''status'', ''taskId'', ''timestamp'']))
     @ ''}''"

text \<open>
  A result as the data model wants it: its fields are \<open>taskId\<close>, \<open>executorId\<close>,
  \<open>status\<close>, \<open>timestamp\<close>, one of \<open>result\<close> and \<open>error\<close>, and \<open>signature\<close>; the
  \<open>executorId\<close> is the executor's; the \<open>status\<close> is \<open>success\<close> when the fifth field is
  \<open>result\<close> and \<open>failure\<close> when it is \<open>error\<close>; and the \<open>signature\<close> is what the
  backend returns for the executor's private key and the bytes of the other fields.
\<close>

definition signed_result :: "crypto \<Rightarrow> Executor \<Rightarrow> jsval \<Rightarrow> bool" where
  "signed_result cb ex r =
     (case r of
        JObj kvs \<Rightarrow>
          (let others = filter (\<lambda>(k, v). k \<noteq> ''signature'') kvs;
               status = get_prop kvs ''status''
           in (map fst kvs = [''taskId'', ''executorId'', ''status'', ''timestamp'', ''result'',
                              ''signature'']
                 \<and> status = JStr ''success''
               \<or> map fst kvs = [''taskId'', ''executorId'', ''status'', ''timestamp'', ''error'',
                                ''signature'']
                 \<and> status = JStr ''failure'')
              \<and> get_prop kvs ''executorId'' = JStr (identity_id (identity ex))
              \<and> (case backend_sign cb (privateKey (identity ex)) (result_text others) of
                    Inl err \<Rightarrow> False
                  | Inr sg \<Rightarrow> get_prop kvs ''signature'' = JStr sg))
      | _ \<Rightarrow> False)"

text \<open>
  The task is one that \<open>executeTask\<close> answers: the values it quotes in a diagnostic
  convert to strings, the schema returns or throws something that has a \<open>message\<close>, and
  so does the handler. (A handler that never settles, a thrown \<open>null\<close> or \<open>undefined\<close>,
  or a quoted value without a conversion to a string leaves \<open>executeTask\<close> without a
  result.)
\<close>

definition answers :: "calls \<Rightarrow> Executor \<Rightarrow> (string \<times> jsval) list \<Rightarrow> bool" where
  "answers call ex signedTask =
     (let capabilityId = get_prop signedTask ''capabilityId'';
          payload = get_prop signedTask ''payload''
      in case handlers_get (handlers ex) capabilityId of
           None \<Rightarrow> (case not_supported call capabilityId of Inl err \<Rightarrow> False | Inr d \<Rightarrow> True)
         | Some h \<Rightarrow>
             (case validateCapability call (capabilityManager ex) capabilityId payload of
                Inl e \<Rightarrow>
                  (case message_of e of
                     Inl err \<Rightarrow> False
                   | Inr m \<Rightarrow>
                       (case validation_failed call m of Inl err \<Rightarrow> False | Inr d \<Rightarrow> True))
              | Inr validated \<Rightarrow>
                  (case h payload of
                     Never \<Rightarrow> False
                   | Throws err \<Rightarrow>
                       (case message_of (Thrown err) of Inl err' \<Rightarrow> False | Inr m \<Rightarrow> True)
                   | Resolves resultData \<Rightarrow> True)))"

text \<open>A field of the object \<open>executeTask\<close> returned, \<open>undefined\<close> if it returned none.\<close>

definition returned_field :: "completion \<Rightarrow> string \<Rightarrow> jsval" where
  "returned_field c key = (case c of Returns (JObj kvs) \<Rightarrow> get_prop kvs key | _ \<Rightarrow> JUndefined)"

section \<open>A concrete executor and requester\<close>

text \<open>
  A backend small enough to compute with: the signature of \<open>bytes\<close> under a key is the
  key, a colon and \<open>bytes\<close>; a key is its own public key; an empty key, or a key or
  signature that is not a string, makes it throw.
\<close>

definition demo_crypto :: crypto where
  "demo_crypto =
     \<lparr>backend_sign = (\<lambda>key bytes.
        if key = [] then Inl (Error ''no key'') else Inr (key @ '':'' @ bytes)),
      backend_verify = (\<lambda>bytes key signature.
        case key of
          JStr k \<Rightarrow>
            (case signature of
               JStr s \<Rightarrow> if k = [] then Inl (Error ''no key'') else Inr (s = k @ '':'' @ bytes)
             | _ \<Rightarrow> Inl (TypeError ''signature''))
        | _ \<Rightarrow> Inl (TypeError ''key''))\<rparr>"

definition demo_identity :: IdentityManager where
  "demo_identity =
     \<lparr>name = ''AlphaNode'', identity_id = ''did:mtp:AlphaNode:1700000000000'',
      privateKey = ''executor-key'', publicKey = ''executor-key''\<rparr>"

definition demo_requester :: IdentityManager where
  "demo_requester =
     \<lparr>name = ''ClientOne'', identity_id = ''did:mtp:ClientOne:1700000000001'',
      privateKey = ''client-key'', publicKey = ''client-key''\<rparr>"

text \<open>In the examples every function value, when called, returns \<open>undefined\<close>.\<close>

definition demo_calls :: calls where
  "demo_calls src this = Inr JUndefined"

text \<open>
  A capability for the examples, after the \<open>MathAdd\<close> of \<open>examples/server.js\<close>. The
  input schema wants an object with two numbers \<open>a\<close> and \<open>b\<close> and returns the declared
  keys only, the output schema wants an object with a number \<open>answer\<close>, the handler adds
  \<open>a\<close> and \<open>b\<close>. What these schemas throw is an \<open>Error\<close> with a short message of their
  own: the messages of the schema engine that \<open>examples/server.js\<close> imports are not
  reproduced, and neither is what its handler does with a payload that is not made of
  two numbers.
\<close>

definition example_input_schema :: schema where
  "example_input_schema input =
     (case input of
        JObj kvs \<Rightarrow>
          (case (get_prop kvs ''a'', get_prop kvs ''b'') of
             (JNum a, JNum b) \<Rightarrow> Inr (JObj [(''a'', JNum a), (''b'', JNum b)])
           | _ \<Rightarrow> Inl (Error ''Expected number''))
      | _ \<Rightarrow> Inl (Error ''Expected object''))"

definition example_output_schema :: schema where
  "example_output_schema output =
     (case output of
        JObj kvs \<Rightarrow>
          (case get_prop kvs ''answer'' of
             JNum n \<Rightarrow> Inr (JObj [(''answer'', JNum n)])
           | _ \<Rightarrow> Inl (Error ''Expected number''))
      | _ \<Rightarrow> Inl (Error ''Expected object''))"

definition example_handler :: handler where
  "example_handler payload =
     (case payload of
        JObj kvs \<Rightarrow>
          (case (get_prop kvs ''a'', get_prop kvs ''b'') of
             (JNum a, JNum b) \<Rightarrow> Resolves (JObj [(''answer'', JNum (a + b))])
           | _ \<Rightarrow> Throws (JObj [(''message'', JStr ''not a number'')]))
      | _ \<Rightarrow> Throws (JObj [(''message'', JStr ''not an object'')]))"

definition empty_registry :: CapabilityManager where
  "empty_registry = \<lparr>executorIdentity = getIdentity demo_identity, capabilities = []\<rparr>"

text \<open>
  An executor with one capability \<open>MathAdd\<close>, registered at the time 1700000000002
  with a given input schema and handler.
\<close>

definition executor_with :: "schema \<Rightarrow> handler \<Rightarrow> Executor" where
  "executor_with inputSchema h =
     snd (addCapability 1700000000002 (new_Executor demo_identity)
            ''MathAdd'' inputSchema example_output_schema h)"

definition demo_capability :: Capability where
  "demo_capability =
     fst (addCapability 1700000000002 (new_Executor demo_identity)
            ''MathAdd'' example_input_schema example_output_schema example_handler)"

definition demo_executor :: Executor where
  "demo_executor = executor_with example_input_schema example_handler"

text \<open>An executor that was given an empty private key, with which the backend does not sign.\<close>

definition keyless_executor :: Executor where
  "keyless_executor = new_Executor (demo_identity\<lparr>privateKey := []\<rparr>)"

text \<open>
  The task the requester creates for a capability id and a payload (signing cannot
  fail here), and the one for the capability \<open>MathAdd\<close>.
\<close>

definition demo_task_for :: "jsval \<Rightarrow> jsval \<Rightarrow> (string \<times> jsval) list" where
  "demo_task_for capabilityId payload =
     (case createTask demo_crypto ''0b5c1f9e'' 1700000000003 demo_requester
             capabilityId payload of
        Inl err \<Rightarrow> []
      | Inr task \<Rightarrow> task)"

definition demo_task :: "jsval \<Rightarrow> (string \<times> jsval) list" where
  "demo_task payload = demo_task_for (JStr ''cap_mathadd_1700000000002'') payload"

definition demo_payload :: jsval where
  "demo_payload = JObj [(''a'', JNum 2), (''b'', JNum 3)]"

section \<open>The canonical form\<close>

lemma concat_map_if:
  "concat (map (\<lambda>x. if P x then [g x] else []) xs) = map g (filter P xs)"
  by (induction xs) simp_all

lemma stableStringify_JObj:
  "stableStringify (JObj kvs) =
     Some (''{'' @ join '','' (map (part_of kvs) (sort (filter (emitted kvs) (map fst kvs)))) @ ''}'')"
proof -
  have "(\<lambda>key. let v = get_prop kvs key in
           if v \<noteq> JUndefined \<and> \<not> is_function v
           then [quote key @ '':'' @ template (stableStringify v)] else [])
        = (\<lambda>key. if emitted kvs key then [part_of kvs key] else [])"
    by (auto simp: fun_eq_iff part_of_def emitted_def Let_def)
  then show ?thesis
    by (simp only: stableStringify.simps concat_map_if filter_sort)
qed

lemma canonical_object: "\<exists>bytes. stableStringify (JObj kvs) = Some bytes"
  by simp

lemma sort_same_set:
  fixes xs ys :: "string list"
  assumes "distinct xs" "distinct ys" "set xs = set ys"
  shows "sort xs = sort ys"
  using assms by (intro sorted_distinct_set_unique) simp_all

lemma get_prop_same_pairs:
  assumes "distinct (map fst kvs)" "distinct (map fst kvs')" "set kvs = set kvs'"
  shows "get_prop kvs = get_prop kvs'"
proof -
  have "map_of kvs = map_of kvs'"
    using assms by (simp add: map_of_inject_set)
  then show ?thesis
    by (simp add: get_prop_def fun_eq_iff)
qed

lemma same_pairs_canonical:
  assumes "distinct (map fst kvs)" "distinct (map fst kvs')" "set kvs = set kvs'"
  shows "stableStringify (JObj kvs) = stableStringify (JObj kvs')"
proof -
  from assms have "set (map fst kvs) = set (map fst kvs')"
    by simp
  with assms have "sort (map fst kvs) = sort (map fst kvs')"
    by (intro sort_same_set)
  moreover have "get_prop kvs = get_prop kvs'"
    using assms by (rule get_prop_same_pairs)
  ultimately show ?thesis
    by simp
qed

lemma same_value_guard:
  assumes "same_value a b"
  shows "(a = JUndefined) = (b = JUndefined) \<and> is_function a = is_function b"
  using assms by (cases a; cases b) (auto simp: is_function_def)

lemma same_value_canonical:
  "same_value a b \<Longrightarrow> stableStringify a = stableStringify b"
proof (induction a b rule: same_value.induct)
  case (1 xs ys)
  from "1.prems" have "list_all2 same_value xs ys"
    by simp
  then have "list_all2 (\<lambda>x y. stableStringify x = stableStringify y) xs ys"
    using "1.IH" by (auto elim!: list.rel_mono_strong)
  then have "map stableStringify xs = map stableStringify ys"
    by (induction xs ys rule: list_all2_induct) simp_all
  then show ?case
    by simp
next
  case (2 kvs kvs')
  from "2.prems" have keys: "sort (map fst kvs) = sort (map fst kvs')"
    by (intro sort_same_set) simp_all
  have "(let v = get_prop kvs key in
           if v \<noteq> JUndefined \<and> \<not> is_function v
           then [quote key @ '':'' @ template (stableStringify v)] else [])
      = (let v = get_prop kvs' key in
           if v \<noteq> JUndefined \<and> \<not> is_function v
           then [quote key @ '':'' @ template (stableStringify v)] else [])"
    if "key \<in> set (sort (map fst kvs))" for key
  proof -
    from that have key: "key \<in> set (map fst kvs)"
      by simp
    from "2.prems"
    have "\<forall>key \<in> set (map fst kvs). same_value (get_prop kvs key) (get_prop kvs' key)"
      by (simp del: set_map)
    with key have rel: "same_value (get_prop kvs key) (get_prop kvs' key)"
      by blast
    from "2.IH" [OF key rel] same_value_guard [OF rel] show ?thesis
      by (simp add: Let_def)
  qed
  then have "map (\<lambda>key. let v = get_prop kvs key in
           if v \<noteq> JUndefined \<and> \<not> is_function v
           then [quote key @ '':'' @ template (stableStringify v)] else []) (sort (map fst kvs))
      = map (\<lambda>key. let v = get_prop kvs' key in
           if v \<noteq> JUndefined \<and> \<not> is_function v
           then [quote key @ '':'' @ template (stableStringify v)] else []) (sort (map fst kvs))"
    by (intro map_cong refl)
  with keys show ?case
    by (simp only: stableStringify.simps)
qed simp_all

text \<open>
  Claim C5. Canonicalization is deterministic and independent of the order of keys.
  \<open>stableStringify\<close> is a function of its argument alone (it reads no clock and no
  state), so applying it twice to a value gives the same output; two objects that hold
  the same key/value pairs, in whatever order they were created, have the same
  canonical form; and so have two values that are the same up to the order of keys at
  any depth.
\<close>

theorem stableStringify_order_independent:
  "stableStringify v = stableStringify v
   \<and> (distinct (map fst kvs) \<and> distinct (map fst kvs') \<and> set kvs = set kvs'
        \<longrightarrow> stableStringify (JObj kvs) = stableStringify (JObj kvs'))
   \<and> (same_value a b \<longrightarrow> stableStringify a = stableStringify b)"
  using same_pairs_canonical same_value_canonical by blast

text \<open>
  An instance: the pairs of an object in two orders, and an object whose nested object
  is reordered as well.
\<close>

theorem stableStringify_order_independent_witness:
  "stableStringify (JObj [(''b'', JNum 2), (''a'', JStr ''x''), (''c'', JNull)])
     = stableStringify (JObj [(''c'', JNull), (''b'', JNum 2), (''a'', JStr ''x'')])
   \<and> stableStringify (JObj [(''b'', JNum 2), (''a'', JObj [(''y'', JNull), (''x'', JArr [])])])
     = stableStringify (JObj [(''a'', JObj [(''x'', JArr []), (''y'', JNull)]), (''b'', JNum 2)])"
proof -
  have pairs: "distinct (map fst [(''b'', JNum 2), (''a'', JStr ''x''), (''c'', JNull)])
      \<and> distinct (map fst [(''c'', JNull), (''b'', JNum 2), (''a'', JStr ''x'')])
      \<and> set [(''b'', JNum 2), (''a'', JStr ''x''), (''c'', JNull)]
          = set [(''c'', JNull), (''b'', JNum 2), (''a'', JStr ''x'')]"
    by auto
  have nested: "same_value (JObj [(''b'', JNum 2), (''a'', JObj [(''y'', JNull), (''x'', JArr [])])])
      (JObj [(''a'', JObj [(''x'', JArr []), (''y'', JNull)]), (''b'', JNum 2)])"
    by code_simp
  from pairs nested
    stableStringify_order_independent
      [of JNull "[(''b'', JNum 2), (''a'', JStr ''x''), (''c'', JNull)]"
          "[(''c'', JNull), (''b'', JNum 2), (''a'', JStr ''x'')]"
          "JObj [(''b'', JNum 2), (''a'', JObj [(''y'', JNull), (''x'', JArr [])])]"
          "JObj [(''a'', JObj [(''x'', JArr []), (''y'', JNull)]), (''b'', JNum 2)]"]
  show ?thesis
    by blast
qed

subsection \<open>Undefined and null fields\<close>

lemma get_prop_insert:
  assumes "key \<noteq> k"
  shows "get_prop (xs @ (k, v) # ys) key = get_prop (xs @ ys) key"
  using assms by (simp add: get_prop_def map_add_def split: option.splits)

lemma get_prop_inserted:
  assumes "k \<notin> fst ` set xs"
  shows "get_prop (xs @ (k, v) # ys) k = v"
proof -
  from assms have "map_of xs k = None"
    by (simp add: map_of_eq_None_iff)
  then show ?thesis
    by (simp add: get_prop_def map_add_def)
qed

lemma emitted_insert:
  assumes "key \<noteq> k"
  shows "emitted (xs @ (k, v) # ys) key = emitted (xs @ ys) key"
  using assms by (simp add: emitted_def get_prop_insert)

lemma part_of_insert:
  assumes "key \<noteq> k"
  shows "part_of (xs @ (k, v) # ys) key = part_of (xs @ ys) key"
  using assms by (simp add: part_of_def get_prop_insert)

lemma filter_emitted_insert:
  assumes "k \<notin> set ks"
  shows "filter (emitted (xs @ (k, v) # ys)) ks = filter (emitted (xs @ ys)) ks"
proof (rule filter_cong [OF refl])
  fix key assume "key \<in> set ks"
  with assms have "key \<noteq> k" by auto
  then show "emitted (xs @ (k, v) # ys) key = emitted (xs @ ys) key"
    by (rule emitted_insert)
qed

lemma map_part_of_insert:
  assumes "k \<notin> set ks"
  shows "map (part_of (xs @ (k, v) # ys)) ks = map (part_of (xs @ ys)) ks"
proof (rule map_cong [OF refl])
  fix key assume "key \<in> set ks"
  with assms have "key \<noteq> k" by auto
  then show "part_of (xs @ (k, v) # ys) key = part_of (xs @ ys) key"
    by (rule part_of_insert)
qed

lemma sum_list_insort:
  fixes h :: "string \<Rightarrow> nat"
  shows "sum_list (map h (insort x xs)) = h x + sum_list (map h xs)"
  by (induction xs) simp_all

lemma sum_list_sort:
  fixes h :: "string \<Rightarrow> nat"
  shows "sum_list (map h (sort xs)) = sum_list (map h xs)"
  by (induction xs) (simp_all add: sum_list_insort)

lemma length_join:
  "length (join sep ps) = sum_list (map length ps) + length sep * (length ps - 1)"
  by (induction sep ps rule: join.induct) simp_all

lemma length_canonical_object:
  "length (the (stableStringify (JObj kvs))) =
     2 + sum_list (map (length \<circ> part_of kvs) (filter (emitted kvs) (map fst kvs)))
       + (length (filter (emitted kvs) (map fst kvs)) - 1)"
proof -
  have "sum_list (map length (map (part_of kvs) zs)) = sum_list (map (length \<circ> part_of kvs) zs)"
    for zs
    by (simp add: comp_def)
  then show ?thesis
    by (simp add: stableStringify_JObj length_join sum_list_sort
        del: stableStringify.simps map_map)
qed

text \<open>
  Claim C8. In an object, a key whose value is \<open>undefined\<close> is left out of the canonical
  form: the object has the canonical form of the same object without the key. A key
  whose value is \<open>null\<close> is written with the value \<open>null\<close>, so for every key that an
  object lacks, the object and the same object with the key set to \<open>null\<close> have
  different canonical forms.
\<close>

theorem undefined_omitted_null_emitted:
  assumes "k \<notin> fst ` set (xs @ ys)"
  shows "stableStringify (JObj (xs @ (k, JUndefined) # ys)) = stableStringify (JObj (xs @ ys))
       \<and> stableStringify (JObj (xs @ (k, JNull) # ys)) \<noteq> stableStringify (JObj (xs @ ys))
       \<and> stableStringify (JObj [(k, JNull)]) = Some (''{'' @ quote k @ '':null}'')"
proof (intro conjI)
  from assms have kx: "k \<notin> fst ` set xs" and ky: "k \<notin> fst ` set ys"
    by auto
  let ?old = "xs @ ys"
  let ?F = "filter (emitted ?old) (map fst ?old)"
  have notin: "k \<notin> set (map fst xs)" "k \<notin> set (map fst ys)"
    using kx ky by auto
  show "stableStringify (JObj (xs @ (k, JUndefined) # ys)) = stableStringify (JObj ?old)"
  proof -
    let ?new = "xs @ (k, JUndefined) # ys"
    have "\<not> emitted ?new k"
      using kx by (simp add: emitted_def get_prop_inserted)
    then have keys: "filter (emitted ?new) (map fst ?new) = ?F"
      using notin by (simp add: filter_emitted_insert)
    have "k \<notin> set (sort ?F)"
      using notin by auto
    then have "map (part_of ?new) (sort ?F) = map (part_of ?old) (sort ?F)"
      by (rule map_part_of_insert)
    with keys show ?thesis
      by (simp only: stableStringify_JObj)
  qed
  show "stableStringify (JObj (xs @ (k, JNull) # ys)) \<noteq> stableStringify (JObj ?old)"
  proof -
    let ?new = "xs @ (k, JNull) # ys"
    define A where "A = filter (emitted ?old) (map fst xs)"
    define B where "B = filter (emitted ?old) (map fst ys)"
    have F: "?F = A @ B"
      by (simp add: A_def B_def)
    have "emitted ?new k"
      using kx by (simp add: emitted_def get_prop_inserted is_function_def)
    then have keys: "filter (emitted ?new) (map fst ?new) = A @ k # B"
      using notin by (simp add: filter_emitted_insert A_def B_def)
    define g where "g = length \<circ> part_of ?new"
    define h where "h = length \<circ> part_of ?old"
    have parts: "map g zs = map h zs" if "k \<notin> set zs" for zs
    proof -
      have "map length (map (part_of ?new) zs) = map length (map (part_of ?old) zs)"
        using map_part_of_insert [OF that, of xs JNull ys] by simp
      then show ?thesis
        by (simp only: map_map g_def h_def)
    qed
    have kA: "k \<notin> set A" and kB: "k \<notin> set B"
      using notin by (auto simp: A_def B_def)
    have sum: "sum_list (map g (A @ k # B)) = sum_list (map h (A @ B)) + g k"
      by (simp add: parts [OF kA] parts [OF kB])
    have "0 < g k"
      by (simp add: g_def part_of_def quote_def)
    then have "length (the (stableStringify (JObj ?old)))
        < length (the (stableStringify (JObj ?new)))"
      unfolding length_canonical_object keys F g_def [symmetric] h_def [symmetric] sum by simp
    then show ?thesis
      by auto
  qed
  show "stableStringify (JObj [(k, JNull)]) = Some (''{'' @ quote k @ '':null}'')"
    by (simp add: get_prop_def is_function_def template_def)
qed

theorem undefined_omitted_null_emitted_witness:
  "stableStringify (JObj [(''a'', JNum 1), (''m'', JUndefined), (''z'', JBool True)])
     = stableStringify (JObj [(''a'', JNum 1), (''z'', JBool True)])
   \<and> stableStringify (JObj [(''a'', JNum 1), (''m'', JNull), (''z'', JBool True)])
     \<noteq> stableStringify (JObj [(''a'', JNum 1), (''z'', JBool True)])"
  using undefined_omitted_null_emitted [of "''m''" "[(''a'', JNum 1)]" "[(''z'', JBool True)]"]
  by simp

text \<open>
  Claim C10. In an array, an element that is \<open>undefined\<close> or a function is not left
  out: it is written as an empty entry. So different arrays can have one canonical
  form: \<open>[undefined]\<close> and \<open>[]\<close> both give \<open>[]\<close>, and signing either gives the same
  signature.
\<close>

theorem undefined_array_entries:
  "stableStringify (JArr [JUndefined]) = Some ''[]''
   \<and> stableStringify (JArr []) = Some ''[]''
   \<and> stableStringify (JArr [JFun src]) = Some ''[]''
   \<and> stableStringify (JArr [JUndefined, JFun src]) = Some ''[,]''
   \<and> stableStringify (JArr [JUndefined, JNull]) = Some ''[,null]''
   \<and> stableStringify (JArr [JBool True, JUndefined, JBool False]) = Some ''[true,,false]''
   \<and> JArr [JUndefined] \<noteq> JArr []
   \<and> sign cb idn (JArr [JUndefined]) = sign cb idn (JArr [])"
  by (simp add: array_join_def sign_def)

section \<open>Signing and verifying\<close>

text \<open>
  Claim C2, as the code has it. When the backend pairs the identity's private key
  with a public key, every data value that has a canonical form (every value but
  \<open>undefined\<close> and a function) is signed, and \<open>verify\<close> returns \<open>true\<close> for the data, that
  signature and the public key.
\<close>

theorem sign_verify_round_trip:
  assumes "paired cb (privateKey idn) pub" and "stableStringify data \<noteq> None"
  shows "\<exists>sg. sign cb idn data = Inr sg \<and> verify cb data (JStr sg) (JStr pub) = Inr True"
proof -
  from assms(2) obtain bytes where bytes: "stableStringify data = Some bytes"
    by auto
  from assms(1) obtain sg where "backend_sign cb (privateKey idn) bytes = Inr sg"
    and "backend_verify cb bytes (JStr pub) (JStr sg) = Inr True"
    unfolding paired_def by blast
  with bytes show ?thesis
    by (simp add: sign_def verify_def)
qed

theorem sign_verify_round_trip_witness:
  "\<exists>sg. sign demo_crypto demo_requester (JObj [(''b'', JNum 3), (''a'', JNum 2)]) = Inr sg
     \<and> verify demo_crypto (JObj [(''b'', JNum 3), (''a'', JNum 2)]) (JStr sg) (JStr ''client-key'')
         = Inr True"
proof -
  have "paired demo_crypto (privateKey demo_requester) ''client-key''"
    by (simp add: paired_def demo_crypto_def demo_requester_def)
  moreover have "stableStringify (JObj [(''b'', JNum 3), (''a'', JNum 2)]) \<noteq> None"
    by simp
  ultimately show ?thesis
    by (rule sign_verify_round_trip)
qed

text \<open>
  Claim C2 fails for the data value \<open>undefined\<close>: with paired keys, \<open>sign\<close> throws the
  \<open>TypeError\<close> of \<open>update\<close> and returns no signature, and so does \<open>verify\<close>.
\<close>

theorem sign_undefined_counterexample:
  "paired demo_crypto (privateKey demo_requester) (publicKey demo_requester)
   \<and> sign demo_crypto demo_requester JUndefined = Inl update_type_error
   \<and> verify demo_crypto JUndefined (JStr ''client-key:'') (JStr (publicKey demo_requester))
       = Inl update_type_error"
  by (simp add: paired_def demo_crypto_def demo_requester_def sign_def verify_def)

text \<open>
  Claim C6, as the code has it. For every data value that has a canonical form, and
  every signature and public key, \<open>verify\<close> returns a boolean and throws nothing: the
  backend's answer, or \<open>false\<close> when the backend throws.
\<close>

theorem verify_returns_boolean:
  assumes "stableStringify data = Some bytes"
  shows "verify cb data signature pubKey =
           Inr (case backend_verify cb bytes pubKey signature of
                  Inl err \<Rightarrow> False
                | Inr ok \<Rightarrow> ok)"
  using assms by (simp add: verify_def split: sum.splits)

text \<open>
  A signature that is not a string and a missing public key make the backend throw,
  a wrong signature makes it answer \<open>false\<close>: \<open>verify\<close> returns \<open>false\<close> each time.
\<close>

theorem verify_returns_boolean_witness:
  "verify demo_crypto (JObj [(''a'', JNum 2)]) (JNum 7) (JStr ''client-key'') = Inr False
   \<and> verify demo_crypto (JObj [(''a'', JNum 2)]) (JStr ''ff'') JUndefined = Inr False
   \<and> verify demo_crypto (JObj [(''a'', JNum 2)]) (JStr ''ff'') (JStr ''client-key'') = Inr False"
proof -
  have bytes: "stableStringify (JObj [(''a'', JNum 2)]) = Some (''{'' @ quote ''a'' @ '':2}'')"
    by code_simp
  show ?thesis
    using verify_returns_boolean [OF bytes, of demo_crypto "JNum 7" "JStr ''client-key''"]
      verify_returns_boolean [OF bytes, of demo_crypto "JStr ''ff''" JUndefined]
      verify_returns_boolean [OF bytes, of demo_crypto "JStr ''ff''" "JStr ''client-key''"]
    by (simp add: demo_crypto_def quote_def)
qed

text \<open>
  Claim C6 fails for the data value \<open>undefined\<close>: \<open>update\<close> is called before the \<open>try\<close>,
  and its \<open>TypeError\<close> reaches the caller.
\<close>

theorem verify_undefined_counterexample:
  "verify demo_crypto JUndefined (JStr ''ff'') (JStr ''client-key'') = Inl update_type_error"
  by (simp add: verify_def)

section \<open>The capability registry\<close>

lemma registerCapability_appends:
  "capabilities (snd (registerCapability now cm nm inputSchema outputSchema cons))
     = capabilities cm @ [fst (registerCapability now cm nm inputSchema outputSchema cons)]"
  by (simp add: registerCapability_def Let_def)

lemma registerCapability_id:
  "cap_id (fst (registerCapability now cm nm inputSchema outputSchema cons))
     = new_capability_id nm now"
  by (simp add: registerCapability_def Let_def)

text \<open>
  Claim C9 at two registrations of one name within one millisecond. The registry only
  grows, but the id is made of the name and of \<open>Date.now()\<close> alone: both capabilities
  get the id \<open>cap_mathadd_1700000000002\<close>, and the registry holds two entries under it.
\<close>

theorem same_name_same_millisecond:
  "(let (c1, cm1) = registerCapability 1700000000002 empty_registry ''MathAdd''
                      example_input_schema example_output_schema (JObj []);
        (c2, cm2) = registerCapability 1700000000002 cm1 ''MathAdd''
                      example_input_schema example_output_schema (JObj [])
    in cap_id c1 = cap_id c2
       \<and> map cap_id (capabilities cm2)
           = [''cap_mathadd_1700000000002'', ''cap_mathadd_1700000000002''])"
  by code_simp

section \<open>Clean values and their canonical form\<close>

text \<open>
  The canonical form of a clean value can be read back: two clean values with the same
  canonical form are the same up to the order of the keys of their objects. The proof
  follows the text from left to right: the text of a number ends where the digits
  end, the text of a string at its closing quote, and the entries of an array or an
  object are cut at the commas between them.
\<close>

subsection \<open>Digits\<close>

lemma hex_digit_decimal:
  assumes "k < 10"
  shows "hex_digit k \<in> set ''0123456789''" and "int (of_char (hex_digit k)) - 48 = int k"
proof -
  from assms have "k \<in> {0, 1, 2, 3, 4, 5, 6, 7, 8, 9}"
    by auto
  then show "hex_digit k \<in> set ''0123456789''" and "int (of_char (hex_digit k)) - 48 = int k"
    by (auto simp: hex_digit_def)
qed

lemma digits_decimal:
  "0 \<le> n \<Longrightarrow> digits n \<noteq> [] \<and> set (digits n) \<subseteq> set ''0123456789''"
proof (induction n rule: digits.induct)
  case (1 n)
  show ?case
  proof (cases "n < 10")
    case True
    with "1.prems" have "nat n < 10" by simp
    from hex_digit_decimal(1) [OF this] True show ?thesis
      by (simp add: digits.simps [of n])
  next
    case False
    with "1.prems" have "0 \<le> n div 10" and "nat (n mod 10) < 10"
      by simp_all
    with "1.IH" False hex_digit_decimal(1) [of "nat (n mod 10)"] show ?thesis
      by (simp add: digits.simps [of n])
  qed
qed

lemma digits_value:
  "0 \<le> n \<Longrightarrow> foldl (\<lambda>a c. 10 * a + (int (of_char c) - 48)) 0 (digits n) = n"
proof (induction n rule: digits.induct)
  case (1 n)
  show ?case
  proof (cases "n < 10")
    case True
    with "1.prems" have "nat n < 10" by simp
    from hex_digit_decimal(2) [OF this] True "1.prems" show ?thesis
      by (simp add: digits.simps [of n])
  next
    case False
    with "1.prems" have "0 \<le> n div 10" and "nat (n mod 10) < 10"
      by simp_all
    with "1.IH" False hex_digit_decimal(2) [of "nat (n mod 10)"] show ?thesis
      by (simp add: digits.simps [of n])
  qed
qed

lemma digits_inject:
  assumes "0 \<le> n" "0 \<le> m" "digits n = digits m"
  shows "n = m"
proof -
  have "n = foldl (\<lambda>a c. 10 * a + (int (of_char c) - 48)) 0 (digits n)"
    using digits_value [OF assms(1)] by (rule sym)
  also have "\<dots> = foldl (\<lambda>a c. 10 * a + (int (of_char c) - 48)) 0 (digits m)"
    by (simp only: assms(3))
  also have "\<dots> = m"
    using assms(2) by (rule digits_value)
  finally show ?thesis .
qed

lemma stops_takeWhile:
  assumes "stops r"
  shows "takeWhile (\<lambda>c. c \<in> set ''0123456789'') r = []"
proof (cases r)
  case Nil
  then show ?thesis by simp
next
  case (Cons c cs)
  with assms have "c = CHR '','' \<or> c = CHR '']'' \<or> c = CHR ''}''"
    by (simp add: stops_def)
  then have "c \<notin> set ''0123456789''"
    by auto
  with Cons show ?thesis
    by (simp del: set_simps list.set)
qed

lemma digits_split:
  assumes "0 \<le> n" "0 \<le> m" "digits n @ r = digits m @ r'" "stops r" "stops r'"
  shows "n = m \<and> r = r'"
proof -
  have "takeWhile (\<lambda>c. c \<in> set ''0123456789'') (digits n @ r) = digits n"
    using digits_decimal [OF assms(1)] stops_takeWhile [OF assms(4)]
    by (simp add: takeWhile_append2 subset_iff del: set_simps list.set)
  moreover have "takeWhile (\<lambda>c. c \<in> set ''0123456789'') (digits m @ r') = digits m"
    using digits_decimal [OF assms(2)] stops_takeWhile [OF assms(5)]
    by (simp add: takeWhile_append2 subset_iff del: set_simps list.set)
  ultimately have same: "digits n = digits m"
    using assms(3) by simp
  with assms(3) have "r = r'"
    by simp
  with digits_inject [OF assms(1,2) same] show ?thesis
    by simp
qed

lemma number_text_head:
  "\<exists>c cs. number_text n = c # cs \<and> c \<in> set ''-0123456789''"
proof (cases "n < 0")
  case True
  then show ?thesis by (simp add: number_text_def)
next
  case False
  then have "0 \<le> n" by simp
  from digits_decimal [OF this] obtain c cs where "digits n = c # cs" "c \<in> set ''0123456789''"
    by (cases "digits n") auto
  with False show ?thesis
    by (auto simp: number_text_def)
qed

lemma number_text_split:
  assumes "number_text n @ r = number_text m @ r'" "stops r" "stops r'"
  shows "n = m \<and> r = r'"
proof -
  have nonneg: "hd (digits k) \<noteq> CHR ''-''" if "0 \<le> k" for k
  proof -
    from digits_decimal [OF that] obtain c cs where "digits k = c # cs" "c \<in> set ''0123456789''"
      by (cases "digits k") auto
    then show ?thesis by auto
  qed
  consider "n < 0" "m < 0" | "0 \<le> n" "0 \<le> m" | "n < 0" "0 \<le> m" | "0 \<le> n" "m < 0"
    by linarith
  then show ?thesis
  proof cases
    case 1
    with assms digits_split [of "- n" "- m" r r'] show ?thesis
      by (simp add: number_text_def)
  next
    case 2
    with assms digits_split [of n m r r'] show ?thesis
      by (simp add: number_text_def)
  next
    case 3
    from digits_decimal [OF 3(2)] obtain c cs where "digits m = c # cs" "c \<in> set ''0123456789''"
      by (cases "digits m") auto
    with 3 assms(1) show ?thesis
      by (auto simp: number_text_def)
  next
    case 4
    from digits_decimal [OF 4(1)] obtain c cs where "digits n = c # cs" "c \<in> set ''0123456789''"
      by (cases "digits n") auto
    with 4 assms(1) show ?thesis
      by (auto simp: number_text_def)
  qed
qed


subsection \<open>Strings\<close>

lemma hex_digit_inject:
  assumes "i < 16" "j < 16" "hex_digit i = hex_digit j"
  shows "i = j"
proof -
  have "distinct ''0123456789abcdef''"
    by simp
  with assms show ?thesis
    by (simp add: hex_digit_def nth_eq_iff_index_eq)
qed

lemma escape_char_head:
  "\<exists>x xs. escape_char c = x # xs \<and> x \<noteq> CHR 0x22"
  by (simp add: escape_char_def)

lemma control_inject:
  fixes c d :: char
  assumes "(of_char c :: nat) < 32" "(of_char d :: nat) < 32"
    and "hex_digit (of_char c div 16) = hex_digit (of_char d div 16)"
    and "hex_digit (of_char c mod 16) = hex_digit (of_char d mod 16)"
  shows "c = d"
proof -
  from assms(1,2) have "(of_char c :: nat) div 16 < 16" "(of_char d :: nat) div 16 < 16"
    by simp_all
  with assms(3) have "(of_char c :: nat) div 16 = of_char d div 16"
    by (intro hex_digit_inject)
  moreover have "(of_char c :: nat) mod 16 = of_char d mod 16"
    using assms(4) by (intro hex_digit_inject) simp_all
  ultimately have "(of_char c :: nat) = of_char d"
    by (metis div_mult_mod_eq)
  then show ?thesis
    by simp
qed

lemma escape_char_split:
  assumes "escape_char c @ X = escape_char d @ Y"
  shows "c = d \<and> X = Y"
  using assms
  by (auto simp: escape_char_def split: if_splits dest: control_inject)

lemma escaped_split:
  assumes "concat (map escape_char s) @ CHR 0x22 # X = concat (map escape_char t) @ CHR 0x22 # Y"
  shows "s = t \<and> X = Y"
  using assms
proof (induction s arbitrary: t)
  case Nil
  show ?case
  proof (cases t)
    case Nil
    with Nil.prems show ?thesis by simp
  next
    case (Cons d t')
    obtain x xs where "escape_char d = x # xs" "x \<noteq> CHR 0x22"
      using escape_char_head by blast
    with Nil.prems Cons show ?thesis by simp
  qed
next
  case (Cons c s')
  show ?case
  proof (cases t)
    case Nil
    obtain x xs where "escape_char c = x # xs" "x \<noteq> CHR 0x22"
      using escape_char_head by blast
    with Cons.prems Nil show ?thesis by simp
  next
    case (Cons d t')
    with Cons.prems have "escape_char c @ (concat (map escape_char s') @ CHR 0x22 # X)
        = escape_char d @ (concat (map escape_char t') @ CHR 0x22 # Y)"
      by simp
    then have "c = d" and "concat (map escape_char s') @ CHR 0x22 # X
        = concat (map escape_char t') @ CHR 0x22 # Y"
      using escape_char_split by blast+
    with Cons.IH [of t'] Cons show ?thesis
      by simp
  qed
qed

lemma quote_split:
  assumes "quote s @ X = quote t @ Y"
  shows "s = t \<and> X = Y"
  using assms escaped_split [of s X t Y] by (simp add: quote_def)


subsection \<open>Values\<close>

lemma join_Cons: "join sep (t # ts) = t @ concat (map (\<lambda>u. sep @ u) ts)"
  by (induction ts arbitrary: t) simp_all

lemma clean_canonical: "clean a \<Longrightarrow> stableStringify a = Some (canonical a)"
  by (cases a) (simp_all add: canonical_def)

lemma canonical_JArr:
  "canonical (JArr items) = ''['' @ join '','' (map canonical items) @ '']''"
proof -
  have "map (\<lambda>item. case item of None \<Rightarrow> [] | Some s \<Rightarrow> s) (map stableStringify items)
      = map canonical items"
    by (simp add: canonical_def)
  then show ?thesis
    by (simp add: canonical_def [of "JArr items"] array_join_def del: map_map)
qed

lemma canonical_simps:
  "canonical JNull = ''null''"
  "canonical (JBool b) = (if b then ''true'' else ''false'')"
  "canonical (JNum n) = number_text n"
  "canonical (JStr s) = quote s"
  by (simp_all add: canonical_def)

lemma clean_prop:
  assumes "clean (JObj kvs)" "key \<in> set (map fst kvs)"
  shows "clean (get_prop kvs key)"
proof -
  from assms(2) obtain v where "map_of kvs key = Some v"
    by (cases "map_of kvs key") (auto simp: map_of_eq_None_iff)
  moreover from this have "(key, v) \<in> set kvs"
    by (rule map_of_SomeD)
  ultimately show ?thesis
    using assms(1) by (auto simp: get_prop_def)
qed

lemma clean_emitted:
  assumes "clean v"
  shows "v \<noteq> JUndefined \<and> \<not> is_function v"
  using assms by (cases v) (simp_all add: is_function_def)

lemma canonical_JObj:
  assumes "clean (JObj kvs)"
  shows "canonical (JObj kvs) =
     ''{'' @ join '','' (map (\<lambda>key. quote key @ '':'' @ canonical (get_prop kvs key))
                          (sort (map fst kvs))) @ ''}''"
proof -
  have all: "filter (emitted kvs) (map fst kvs) = map fst kvs"
    using clean_prop [OF assms] clean_emitted by (auto simp: emitted_def filter_id_conv)
  have "part_of kvs key = quote key @ '':'' @ canonical (get_prop kvs key)"
    if "key \<in> set (sort (map fst kvs))" for key
  proof -
    from that have "clean (get_prop kvs key)"
      using clean_prop [OF assms] by simp
    then show ?thesis
      by (simp add: part_of_def clean_canonical template_def)
  qed
  then have "map (part_of kvs) (sort (map fst kvs))
      = map (\<lambda>key. quote key @ '':'' @ canonical (get_prop kvs key)) (sort (map fst kvs))"
    by (intro map_cong refl)
  moreover have "canonical (JObj kvs)
      = ''{'' @ join '','' (map (part_of kvs) (sort (map fst kvs))) @ ''}''"
    by (simp add: canonical_def [of "JObj kvs"] stableStringify_JObj all
        del: stableStringify.simps)
  ultimately show ?thesis
    by (simp only:)
qed

lemma canonical_head:
  assumes "clean a"
  shows "\<exists>c cs. canonical a = c # cs \<and> c \<notin> set '',]}:''"
proof (cases a)
  case (JNum n)
  obtain c cs where "number_text n = c # cs" "c \<in> set ''-0123456789''"
    using number_text_head by blast
  with JNum show ?thesis
    by (auto simp: canonical_simps)
next
  case (JObj kvs)
  with assms show ?thesis
    by (simp add: canonical_JObj)
qed (use assms in \<open>simp_all add: canonical_simps canonical_JArr quote_def\<close>)


subsection \<open>Sequences of entries\<close>

lemma stops_rest:
  assumes "cl = CHR '']'' \<or> cl = CHR ''}''"
  shows "stops (concat (map (\<lambda>x. '','' @ f x) xs) @ cl # r)"
  using assms by (cases xs) (auto simp: stops_def)

lemma rest_split:
  assumes "\<And>x y r r'. x \<in> set xs \<Longrightarrow> y \<in> set ys \<Longrightarrow> f x @ r = g y @ r'
             \<Longrightarrow> stops r \<Longrightarrow> stops r' \<Longrightarrow> R x y \<and> r = r'"
    and "cl = CHR '']'' \<or> cl = CHR ''}''"
    and "concat (map (\<lambda>x. '','' @ f x) xs) @ cl # r = concat (map (\<lambda>y. '','' @ g y) ys) @ cl # r'"
  shows "list_all2 R xs ys \<and> r = r'"
  using assms
proof (induction xs arbitrary: ys)
  case Nil
  then show ?case
    by (cases ys) auto
next
  case (Cons x xs')
  show ?case
  proof (cases ys)
    case Nil
    with Cons.prems(2,3) show ?thesis
      by auto
  next
    case (Cons y ys')
    with Cons.prems(3)
    have eq: "f x @ (concat (map (\<lambda>x. '','' @ f x) xs') @ cl # r)
        = g y @ (concat (map (\<lambda>y. '','' @ g y) ys') @ cl # r')"
      by simp
    have mem: "x \<in> set (x # xs')" "y \<in> set ys"
      using Cons by simp_all
    have first: "R x y \<and> concat (map (\<lambda>x. '','' @ f x) xs') @ cl # r
        = concat (map (\<lambda>y. '','' @ g y) ys') @ cl # r'"
      by (rule Cons.prems(1) [OF mem eq stops_rest [OF Cons.prems(2)]
            stops_rest [OF Cons.prems(2)]])
    have "list_all2 R xs' ys' \<and> r = r'"
    proof (rule Cons.IH [OF _ Cons.prems(2)])
      show "concat (map (\<lambda>x. '','' @ f x) xs') @ cl # r
          = concat (map (\<lambda>y. '','' @ g y) ys') @ cl # r'"
        using first by simp
    next
      fix x' y' s s'
      assume "x' \<in> set xs'" "y' \<in> set ys'" "f x' @ s = g y' @ s'" "stops s" "stops s'"
      then show "R x' y' \<and> s = s'"
        using Cons.prems(1) [of x' y' s s'] Cons by simp
    qed
    with first Cons show ?thesis
      by simp
  qed
qed

lemma entries_split:
  assumes step: "\<And>x y r r'. x \<in> set xs \<Longrightarrow> y \<in> set ys \<Longrightarrow> f x @ r = g y @ r'
             \<Longrightarrow> stops r \<Longrightarrow> stops r' \<Longrightarrow> R x y \<and> r = r'"
    and fh: "\<And>x. x \<in> set xs \<Longrightarrow> \<exists>c cs. f x = c # cs \<and> c \<notin> set '',]}:''"
    and gh: "\<And>y. y \<in> set ys \<Longrightarrow> \<exists>c cs. g y = c # cs \<and> c \<notin> set '',]}:''"
    and cl: "cl = CHR '']'' \<or> cl = CHR ''}''"
    and eq: "join '','' (map f xs) @ cl # r = join '','' (map g ys) @ cl # r'"
  shows "list_all2 R xs ys \<and> r = r'"
proof (cases xs)
  case Nil
  show ?thesis
  proof (cases ys)
    case Nil
    with \<open>xs = []\<close> eq show ?thesis by simp
  next
    case (Cons y ys')
    with gh [of y] obtain c cs where "g y = c # cs" "c \<notin> set '',]}:''"
      by auto
    with \<open>xs = []\<close> Cons eq cl show ?thesis
      by (auto simp: join_Cons)
  qed
next
  case (Cons x xs')
  with fh [of x] obtain c cs where fx: "f x = c # cs" "c \<notin> set '',]}:''"
    by auto
  show ?thesis
  proof (cases ys)
    case Nil
    with Cons eq cl fx show ?thesis
      by (auto simp: join_Cons)
  next
    case (Cons y ys')
    with \<open>xs = x # xs'\<close> eq
    have eq': "f x @ (concat (map (\<lambda>x. '','' @ f x) xs') @ cl # r)
        = g y @ (concat (map (\<lambda>y. '','' @ g y) ys') @ cl # r')"
      by (simp add: join_Cons comp_def)
    have mem: "x \<in> set xs" "y \<in> set ys"
      using Cons \<open>xs = x # xs'\<close> by simp_all
    have first: "R x y \<and> concat (map (\<lambda>x. '','' @ f x) xs') @ cl # r
        = concat (map (\<lambda>y. '','' @ g y) ys') @ cl # r'"
      by (rule step [OF mem eq' stops_rest [OF cl] stops_rest [OF cl]])
    have "list_all2 R xs' ys' \<and> r = r'"
    proof (rule rest_split [OF _ cl])
      show "concat (map (\<lambda>x. '','' @ f x) xs') @ cl # r
          = concat (map (\<lambda>y. '','' @ g y) ys') @ cl # r'"
        using first by simp
    next
      fix x' y' s s'
      assume "x' \<in> set xs'" "y' \<in> set ys'" "f x' @ s = g y' @ s'" "stops s" "stops s'"
      then show "R x' y' \<and> s = s'"
        using step [of x' y' s s'] Cons \<open>xs = x # xs'\<close> by simp
    qed
    with first Cons \<open>xs = x # xs'\<close> show ?thesis
      by simp
  qed
qed


subsection \<open>The canonical form tells clean values apart\<close>

lemma canonical_hd:
  assumes "clean b"
  shows "canonical b \<noteq> [] \<and>
    (case b of
       JNull \<Rightarrow> hd (canonical b) = CHR ''n''
     | JBool x \<Rightarrow> hd (canonical b) \<in> set ''tf''
     | JNum n \<Rightarrow> hd (canonical b) \<in> set ''-0123456789''
     | JStr s \<Rightarrow> hd (canonical b) = CHR 0x22
     | JArr xs \<Rightarrow> hd (canonical b) = CHR ''[''
     | JObj kvs \<Rightarrow> hd (canonical b) = CHR ''{''
     | _ \<Rightarrow> False)"
proof (cases b)
  case (JNum n)
  obtain c cs where "number_text n = c # cs" "c \<in> set ''-0123456789''"
    using number_text_head by blast
  with JNum show ?thesis
    by (simp add: canonical_simps del: set_simps list.set)
next
  case (JObj kvs)
  with assms show ?thesis
    by (simp add: canonical_JObj)
qed (use assms in \<open>simp_all add: canonical_simps canonical_JArr quote_def\<close>)

lemma hd_append_eq:
  assumes "xs \<noteq> []" "ys \<noteq> []" "xs @ r = ys @ r'"
  shows "hd xs = hd ys"
  using assms by (cases xs; cases ys) simp_all

lemma list_all2_same_keys:
  assumes "list_all2 (\<lambda>k k'. k = k' \<and> Q k k') ks ks'"
  shows "ks = ks' \<and> (\<forall>k \<in> set ks. Q k k)"
  using assms by (induction ks ks' rule: list_all2_induct) simp_all

lemma canonical_split:
  "clean a \<Longrightarrow> clean b \<Longrightarrow> canonical a @ r = canonical b @ r' \<Longrightarrow> stops r \<Longrightarrow> stops r'
     \<Longrightarrow> same_value a b \<and> r = r'"
proof (induction a arbitrary: b r r' rule: stableStringify.induct)
  case 1
  then show ?case by simp
next
  case (2 src)
  then show ?case by simp
next
  case 3
  from canonical_hd [OF "3.prems"(1)] canonical_hd [OF "3.prems"(2)] "3.prems"(3)
  have hd: "hd (canonical JNull) = hd (canonical b)"
    by (intro hd_append_eq) simp_all
  show ?case
  proof (cases b)
    case JNull
    with "3.prems" show ?thesis by (simp add: canonical_simps)
  qed (use hd canonical_hd [OF "3.prems"(2)] in \<open>auto simp: canonical_simps\<close>)
next
  case (4 x)
  from canonical_hd [OF "4.prems"(1)] canonical_hd [OF "4.prems"(2)] "4.prems"(3)
  have hd: "hd (canonical (JBool x)) = hd (canonical b)"
    by (intro hd_append_eq) simp_all
  show ?case
  proof (cases b)
    case (JBool y)
    with "4.prems" show ?thesis
      by (auto simp: canonical_simps split: if_splits)
  qed (use hd canonical_hd [OF "4.prems"(2)] in \<open>auto simp: canonical_simps split: if_splits\<close>)
next
  case (5 n)
  from canonical_hd [OF "5.prems"(1)] canonical_hd [OF "5.prems"(2)] "5.prems"(3)
  have hd: "hd (canonical (JNum n)) = hd (canonical b)"
    by (intro hd_append_eq) simp_all
  from canonical_hd [OF "5.prems"(1)] have digit: "hd (canonical (JNum n)) \<in> set ''-0123456789''"
    by simp
  show ?case
  proof (cases b)
    case (JNum m)
    with "5.prems" number_text_split [of n r m r'] show ?thesis
      by (simp add: canonical_simps)
  qed (use hd digit canonical_hd [OF "5.prems"(2)] in auto)
next
  case (6 s)
  from canonical_hd [OF "6.prems"(1)] canonical_hd [OF "6.prems"(2)] "6.prems"(3)
  have hd: "hd (canonical (JStr s)) = hd (canonical b)"
    by (intro hd_append_eq) simp_all
  from canonical_hd [OF "6.prems"(1)] have q: "hd (canonical (JStr s)) = CHR 0x22"
    by simp
  show ?case
  proof (cases b)
    case (JStr t)
    with "6.prems" quote_split [of s r t r'] show ?thesis
      by (simp add: canonical_simps)
  qed (use hd q canonical_hd [OF "6.prems"(2)] in auto)
next
  case (7 items)
  from canonical_hd [OF "7.prems"(1)] canonical_hd [OF "7.prems"(2)] "7.prems"(3)
  have hd: "hd (canonical (JArr items)) = hd (canonical b)"
    by (intro hd_append_eq) simp_all
  from canonical_hd [OF "7.prems"(1)] have q: "hd (canonical (JArr items)) = CHR ''[''"
    by simp
  show ?case
  proof (cases b)
    case (JArr others)
    with "7.prems"(3)
    have eq: "join '','' (map canonical items) @ CHR '']'' # r
        = join '','' (map canonical others) @ CHR '']'' # r'"
      by (simp add: canonical_JArr)
    have "list_all2 same_value items others \<and> r = r'"
    proof (rule entries_split [OF _ _ _ _ eq])
      fix x y s s'
      assume "x \<in> set items" "y \<in> set others" "canonical x @ s = canonical y @ s'"
        "stops s" "stops s'"
      with "7.IH" [of x y s s'] "7.prems"(1,2) JArr show "same_value x y \<and> s = s'"
        by simp
    next
      fix x assume "x \<in> set items"
      with "7.prems"(1) show "\<exists>c cs. canonical x = c # cs \<and> c \<notin> set '',]}:''"
        by (intro canonical_head) simp
    next
      fix y assume "y \<in> set others"
      with "7.prems"(2) JArr show "\<exists>c cs. canonical y = c # cs \<and> c \<notin> set '',]}:''"
        by (intro canonical_head) simp
    qed simp
    with JArr show ?thesis
      by simp
  qed (use hd q canonical_hd [OF "7.prems"(2)] in auto)
next
  case (8 kvs)
  from canonical_hd [OF "8.prems"(1)] canonical_hd [OF "8.prems"(2)] "8.prems"(3)
  have hd: "hd (canonical (JObj kvs)) = hd (canonical b)"
    by (intro hd_append_eq) simp_all
  from canonical_hd [OF "8.prems"(1)] have q: "hd (canonical (JObj kvs)) = CHR ''{''"
    by simp
  show ?case
  proof (cases b)
    case (JObj kvs')
    let ?f = "\<lambda>key. quote key @ '':'' @ canonical (get_prop kvs key)"
    let ?g = "\<lambda>key. quote key @ '':'' @ canonical (get_prop kvs' key)"
    let ?R = "\<lambda>k k'. k = k' \<and> same_value (get_prop kvs k) (get_prop kvs' k')"
    from "8.prems"(2) JObj have clean': "clean (JObj kvs')"
      by simp
    from "8.prems"(3) JObj
    have eq: "join '','' (map ?f (sort (map fst kvs))) @ CHR ''}'' # r
        = join '','' (map ?g (sort (map fst kvs'))) @ CHR ''}'' # r'"
      by (simp add: canonical_JObj [OF "8.prems"(1)] canonical_JObj [OF clean'])
    have "list_all2 ?R (sort (map fst kvs)) (sort (map fst kvs')) \<and> r = r'"
    proof (rule entries_split [OF _ _ _ _ eq])
      fix k k' s s'
      assume k: "k \<in> set (sort (map fst kvs))" and k': "k' \<in> set (sort (map fst kvs'))"
        and parts: "?f k @ s = ?g k' @ s'" and stops: "stops s" "stops s'"
      from parts have "quote k @ ('':'' @ canonical (get_prop kvs k) @ s)
          = quote k' @ ('':'' @ canonical (get_prop kvs' k') @ s')"
        by simp
      from quote_split [OF this]
      have same: "k = k'"
        and vals: "canonical (get_prop kvs k) @ s = canonical (get_prop kvs' k') @ s'"
        by blast+
      from k have v: "clean (get_prop kvs k)"
        using clean_prop [OF "8.prems"(1)] by simp
      from k' have v': "clean (get_prop kvs' k')"
        using clean_prop [OF clean'] by simp
      from "8.IH" [OF k refl clean_emitted [OF v] v v' vals stops] same
      show "?R k k' \<and> s = s'"
        by simp
    next
      fix k assume "k \<in> set (sort (map fst kvs))"
      show "\<exists>c cs. ?f k = c # cs \<and> c \<notin> set '',]}:''"
        by (simp add: quote_def)
    next
      fix k assume "k \<in> set (sort (map fst kvs'))"
      show "\<exists>c cs. ?g k = c # cs \<and> c \<notin> set '',]}:''"
        by (simp add: quote_def)
    qed simp
    then have all: "list_all2 ?R (sort (map fst kvs)) (sort (map fst kvs'))" and rest: "r = r'"
      by blast+
    from list_all2_same_keys [OF all]
    have keys: "sort (map fst kvs) = sort (map fst kvs')"
      and vals: "\<forall>k \<in> set (sort (map fst kvs)). same_value (get_prop kvs k) (get_prop kvs' k)"
      by blast+
    from keys have "set (sort (map fst kvs)) = set (sort (map fst kvs'))"
      by simp
    then have keyset: "set (map fst kvs) = set (map fst kvs')"
      by (simp only: set_sort)
    from vals have each: "\<forall>k \<in> set (map fst kvs). same_value (get_prop kvs k) (get_prop kvs' k)"
      by (simp only: set_sort)
    from "8.prems"(1) have d: "distinct (map fst kvs)"
      by simp
    from clean' have d': "distinct (map fst kvs')"
      by simp
    have "same_value (JObj kvs) (JObj kvs')"
      unfolding same_value.simps using d d' keyset each by blast
    from this rest show ?thesis
      unfolding JObj by (rule conjI)
  qed (use hd q canonical_hd [OF "8.prems"(2)] in auto)
qed

lemma canonical_inject:
  assumes "clean a" "clean b" "stableStringify a = stableStringify b"
  shows "same_value a b"
proof -
  from assms have "canonical a @ [] = canonical b @ []"
    by (simp add: canonical_def)
  then show ?thesis
    using canonical_split [OF assms(1,2), of "[]" "[]"] by (simp add: stops_def)
qed

section \<open>A changed field changes the signed bytes\<close>

lemma get_prop_set_prop:
  "get_prop (set_prop kvs key v) k = (if k = key then v else get_prop kvs k)"
  by (induction kvs key v rule: set_prop.induct) (auto simp: get_prop_def)

lemma map_fst_set_prop:
  "key \<in> set (map fst kvs) \<Longrightarrow> map fst (set_prop kvs key v) = map fst kvs"
  by (induction kvs key v rule: set_prop.induct) auto

lemma join_middle: "\<exists>pre post. \<forall>p. join sep (xs @ p # ys) = pre @ p @ post"
proof (cases xs)
  case Nil
  have "\<forall>p. join sep (xs @ p # ys) = [] @ p @ concat (map (\<lambda>u. sep @ u) ys)"
    by (simp add: Nil join_Cons)
  then show ?thesis
    by blast
next
  case (Cons x xs')
  have "\<forall>p. join sep (xs @ p # ys)
      = (x @ concat (map (\<lambda>u. sep @ u) xs') @ sep) @ p @ concat (map (\<lambda>u. sep @ u) ys)"
    by (simp add: Cons join_Cons)
  then show ?thesis
    by blast
qed

lemma changed_value_changes_canonical:
  assumes key: "key \<in> set (map fst kvs)"
    and keys: "distinct (map fst kvs)"
    and old: "clean (get_prop kvs key)"
    and new: "clean v"
    and changed: "\<not> same_value (get_prop kvs key) v"
  shows "stableStringify (JObj (set_prop kvs key v)) \<noteq> stableStringify (JObj kvs)"
proof
  let ?kvs' = "set_prop kvs key v"
  let ?L = "sort (filter (emitted kvs) (map fst kvs))"
  assume same: "stableStringify (JObj ?kvs') = stableStringify (JObj kvs)"
  have emitted: "emitted ?kvs' = emitted kvs"
    using clean_emitted [OF old] clean_emitted [OF new]
    by (auto simp: fun_eq_iff emitted_def get_prop_set_prop)
  have other: "part_of ?kvs' k = part_of kvs k" if "k \<noteq> key" for k
    using that by (simp add: part_of_def get_prop_set_prop)
  from same have joined:
    "join '','' (map (part_of ?kvs') ?L) = join '','' (map (part_of kvs) ?L)"
    unfolding stableStringify_JObj map_fst_set_prop [OF key] emitted by simp
  from key old have "key \<in> set ?L"
    using clean_emitted [OF old] by (simp add: emitted_def)
  then obtain xs ys where split: "?L = xs @ key # ys"
    by (meson split_list)
  from keys have "distinct ?L"
    by (simp add: distinct_map_filter)
  with split have notin: "key \<notin> set xs" "key \<notin> set ys"
    by auto
  have xs: "map (part_of ?kvs') xs = map (part_of kvs) xs"
  proof (rule map_cong [OF refl])
    fix k assume "k \<in> set xs"
    with notin(1) have "k \<noteq> key"
      by blast
    then show "part_of ?kvs' k = part_of kvs k"
      by (rule other)
  qed
  have ys: "map (part_of ?kvs') ys = map (part_of kvs) ys"
  proof (rule map_cong [OF refl])
    fix k assume "k \<in> set ys"
    with notin(2) have "k \<noteq> key"
      by blast
    then show "part_of ?kvs' k = part_of kvs k"
      by (rule other)
  qed
  obtain pre post where mid:
    "\<forall>p. join '','' (map (part_of kvs) xs @ p # map (part_of kvs) ys) = pre @ p @ post"
    using join_middle by blast
  from joined have "pre @ part_of ?kvs' key @ post = pre @ part_of kvs key @ post"
    unfolding split using mid xs ys by simp
  then have "part_of ?kvs' key = part_of kvs key"
    by simp
  then have "stableStringify v = stableStringify (get_prop kvs key)"
    using clean_canonical [OF old] clean_canonical [OF new]
    by (simp add: part_of_def get_prop_set_prop template_def)
  from canonical_inject [OF old new this [symmetric]] changed show False
    by blast
qed


section \<open>The pipeline of executeTask\<close>

lemma settle_Returns: "settle r = Returns v \<longleftrightarrow> r = Inr v"
  by (simp add: settle_def split: sum.splits)

lemma sign_object:
  assumes "can_sign cb ex"
  shows "\<exists>sg. sign cb (identity ex) (JObj kvs) = Inr sg"
  using assms by (simp add: sign_def can_sign_def)

lemma verify_object:
  "\<exists>b. verify cb (JObj kvs) sg pk = Inr b"
proof -
  obtain bytes where "stableStringify (JObj kvs) = Some bytes"
    using canonical_object by blast
  then show ?thesis
    by (cases "backend_verify cb bytes pk sg")
      (auto simp: verify_def simp del: stableStringify.simps)
qed

lemma authenticated_returns: "\<exists>b. authenticated cb t = Inr b"
  unfolding authenticated_def dataToVerify_def by (rule verify_object)

subsection \<open>The result object\<close>

lemma sort_result_keys:
  "sort [''taskId'', ''executorId'', ''status'', ''timestamp'', ''result'']
     = [''executorId'', ''result'', ''status'', ''taskId'', ''timestamp'']"
  "sort [''taskId'', ''executorId'', ''status'', ''timestamp'', ''error'']
     = [''error'', ''executorId'', ''status'', ''taskId'', ''timestamp'']"
  by code_simp+

lemma result_fields_text:
  assumes "key = ''result'' \<or> key = ''error''"
  shows "stableStringify (JObj (result_fields now ex taskId status key v))
    = Some (result_text (result_fields now ex taskId status key v))"
proof -
  define fs where "fs = result_fields now ex taskId status key v"
  define E where "E = emitted fs"
  have keys: "map fst fs = [''taskId'', ''executorId'', ''status'', ''timestamp'', key]"
    by (simp add: fs_def result_fields_def)
  from assms have "sort (filter E (map fst fs))
      = filter E [''error'', ''executorId'', ''result'', ''status'', ''taskId'', ''timestamp'']"
  proof
    assume key: "key = ''result''"
    then have "\<not> E ''error''"
      by (simp add: E_def fs_def emitted_def result_fields_def get_prop_def)
    then have "filter E [''error'', ''executorId'', ''result'', ''status'', ''taskId'', ''timestamp'']
        = filter E (sort [''taskId'', ''executorId'', ''status'', ''timestamp'', ''result''])"
      by (simp only: sort_result_keys filter.simps if_False)
    then show ?thesis
      by (simp only: keys key filter_sort)
  next
    assume key: "key = ''error''"
    then have "\<not> E ''result''"
      by (simp add: E_def fs_def emitted_def result_fields_def get_prop_def)
    then have "filter E [''error'', ''executorId'', ''result'', ''status'', ''taskId'', ''timestamp'']
        = filter E (sort [''taskId'', ''executorId'', ''status'', ''timestamp'', ''error''])"
      by (simp only: sort_result_keys filter.simps if_False)
    then show ?thesis
      by (simp only: keys key filter_sort)
  qed
  then show ?thesis
    unfolding stableStringify_JObj result_text_def fs_def [symmetric] E_def [symmetric]
    by (simp only:)
qed

lemma sign_result_fields:
  assumes "key = ''result'' \<or> key = ''error''"
  shows "sign cb (identity ex) (JObj (result_fields now ex taskId status key v))
    = backend_sign cb (privateKey (identity ex))
        (result_text (result_fields now ex taskId status key v))"
  unfolding sign_def result_fields_text [OF assms] by simp

lemma createSignedResult_eq:
  "createSignedResult cb now ex taskId status r e =
     (let fs = (if status = ''success''
                then result_fields now ex taskId status ''result'' (default_null r)
                else result_fields now ex taskId status ''error'' (default_null e))
      in case sign cb (identity ex) (JObj fs) of
           Inl err \<Rightarrow> Inl err
         | Inr sg \<Rightarrow> Inr (JObj (fs @ [(''signature'', JStr sg)])))"
  by (simp add: createSignedResult_def result_fields_def Let_def split: sum.splits)

lemma signed_result_fields:
  assumes "backend_sign cb (privateKey (identity ex))
             (result_text (result_fields now ex taskId status key v)) = Inr sg"
    and "key = ''result'' \<and> status = ''success'' \<or> key = ''error'' \<and> status = ''failure''"
  shows "signed_result cb ex
           (JObj (result_fields now ex taskId status key v @ [(''signature'', JStr sg)]))"
proof -
  define fs where "fs = result_fields now ex taskId status key v"
  have others: "filter (\<lambda>(k, v). k \<noteq> ''signature'') fs = fs"
    using assms(2) by (auto simp: fs_def result_fields_def)
  have keys: "map fst fs = [''taskId'', ''executorId'', ''status'', ''timestamp'', key]"
    by (simp add: fs_def result_fields_def)
  have fields: "get_prop (fs @ [(''signature'', JStr sg)]) ''status'' = JStr status"
    "get_prop (fs @ [(''signature'', JStr sg)]) ''executorId'' = JStr (identity_id (identity ex))"
    "get_prop (fs @ [(''signature'', JStr sg)]) ''signature'' = JStr sg"
    using assms(2) by (auto simp: fs_def result_fields_def get_prop_def)
  from assms(1) have signed: "backend_sign cb (privateKey (identity ex)) (result_text fs) = Inr sg"
    by (simp only: fs_def)
  show ?thesis
    unfolding fs_def [symmetric] signed_result_def
    using assms(2) by (auto simp: Let_def others keys fields signed)
qed

lemma createSignedResult_signed:
  assumes "createSignedResult cb now ex taskId status r e = Inr v"
    and "status = ''success'' \<or> status = ''failure''"
  shows "signed_result cb ex v"
proof (cases "status = ''success''")
  case True
  with assms(1) obtain sg where
    sg: "sign cb (identity ex) (JObj (result_fields now ex taskId status ''result'' (default_null r)))
          = Inr sg"
    and v: "v = JObj (result_fields now ex taskId status ''result'' (default_null r)
                @ [(''signature'', JStr sg)])"
    by (auto simp: createSignedResult_eq Let_def split: sum.splits)
  from sg have "backend_sign cb (privateKey (identity ex))
      (result_text (result_fields now ex taskId status ''result'' (default_null r))) = Inr sg"
    by (simp add: sign_result_fields)
  from signed_result_fields [OF this] True show ?thesis
    unfolding v by simp
next
  case False
  with assms(2) have failure: "status = ''failure''"
    by simp
  from False assms(1) obtain sg where
    sg: "sign cb (identity ex) (JObj (result_fields now ex taskId status ''error'' (default_null e)))
          = Inr sg"
    and v: "v = JObj (result_fields now ex taskId status ''error'' (default_null e)
                @ [(''signature'', JStr sg)])"
    by (auto simp: createSignedResult_eq Let_def split: sum.splits)
  from sg have "backend_sign cb (privateKey (identity ex))
      (result_text (result_fields now ex taskId status ''error'' (default_null e))) = Inr sg"
    by (simp add: sign_result_fields)
  from signed_result_fields [OF this] failure show ?thesis
    unfolding v by simp
qed

lemma createSignedResult_returns:
  assumes "can_sign cb ex"
  shows "\<exists>v. createSignedResult cb now ex taskId status r e = Inr v"
proof -
  obtain fs where "fs = (if status = ''success''
                    then result_fields now ex taskId status ''result'' (default_null r)
                    else result_fields now ex taskId status ''error'' (default_null e))"
    by simp
  moreover obtain sg where "sign cb (identity ex) (JObj fs) = Inr sg"
    using sign_object [OF assms] by blast
  ultimately show ?thesis
    by (simp add: createSignedResult_eq Let_def)
qed

lemma settle_signed:
  assumes "settle (createSignedResult cb now ex taskId status r e) = Returns v"
    and "status = ''success'' \<or> status = ''failure''"
  shows "signed_result cb ex v"
  using assms by (auto simp: settle_Returns intro: createSignedResult_signed)

lemma settle_returns:
  assumes "can_sign cb ex"
  shows "\<exists>v. settle (createSignedResult cb now ex taskId status r e) = Returns v"
  using createSignedResult_returns [OF assms, of now taskId status r e]
  by (auto simp: settle_def)

lemma failure_result:
  assumes "can_sign cb ex"
  shows "\<exists>sg. settle (createSignedResult cb now ex taskId ''failure'' JNull diag)
            = Returns (JObj (result_fields now ex taskId ''failure'' ''error'' (default_null diag)
                @ [(''signature'', JStr sg)]))
          \<and> sign cb (identity ex)
               (JObj (result_fields now ex taskId ''failure'' ''error'' (default_null diag)))
              = Inr sg
          \<and> backend_sign cb (privateKey (identity ex))
               (result_text (result_fields now ex taskId ''failure'' ''error'' (default_null diag)))
              = Inr sg"
proof -
  obtain sg where sg: "sign cb (identity ex)
      (JObj (result_fields now ex taskId ''failure'' ''error'' (default_null diag))) = Inr sg"
    using sign_object [OF assms] by blast
  then have "backend_sign cb (privateKey (identity ex))
      (result_text (result_fields now ex taskId ''failure'' ''error'' (default_null diag))) = Inr sg"
    by (simp add: sign_result_fields)
  with sg show ?thesis
    by (simp add: createSignedResult_eq settle_def)
qed

lemma handler_failed_signed:
  assumes "handler_failed cb now ex taskId err = Returns v"
  shows "signed_result cb ex v"
  using assms
  by (auto simp: handler_failed_def settle_Returns split: sum.splits
      intro: createSignedResult_signed)

lemma handler_failed_returns:
  assumes "can_sign cb ex" and "message_of err = Inr m"
  shows "\<exists>v. handler_failed cb now ex taskId err = Returns v"
  using assms createSignedResult_returns [OF assms(1), of now taskId "''failure''" JNull m]
  by (auto simp: handler_failed_def settle_def)

subsection \<open>The steps\<close>

lemma executeTask_rejected:
  assumes "authenticated cb t = Inr False"
  shows "executeTask cb call now ex t =
           (settle (createSignedResult cb now ex (get_prop t ''taskId'') ''failure'' JNull
              (JStr ''Invalid Task Signature: Auth Failed'')), [])"
  using assms by (simp add: executeTask_def authenticated_def Let_def)

lemma executeTask_not_supported:
  assumes "authenticated cb t = Inr True"
    and "handlers_get (handlers ex) (get_prop t ''capabilityId'') = None"
  shows "executeTask cb call now ex t =
           (case not_supported call (get_prop t ''capabilityId'') of
              Inl err \<Rightarrow> (Raises err, [])
            | Inr diagnostic \<Rightarrow>
                (settle (createSignedResult cb now ex (get_prop t ''taskId'') ''failure'' JNull
                   (JStr diagnostic)), []))"
  using assms by (simp add: executeTask_def authenticated_def Let_def)

lemma executeTask_invalid:
  assumes "authenticated cb t = Inr True"
    and "handlers_get (handlers ex) (get_prop t ''capabilityId'') = Some h"
    and "validateCapability call (capabilityManager ex) (get_prop t ''capabilityId'')
           (get_prop t ''payload'') = Inl e"
  shows "executeTask cb call now ex t =
           (case message_of e of
              Inl err \<Rightarrow> (Raises err, [])
            | Inr m \<Rightarrow>
                (case validation_failed call m of
                   Inl err \<Rightarrow> (Raises err, [])
                 | Inr diagnostic \<Rightarrow>
                     (settle (createSignedResult cb now ex (get_prop t ''taskId'') ''failure''
                        JNull (JStr diagnostic)), [])))"
  using assms by (simp add: executeTask_def authenticated_def Let_def)

lemma executeTask_handled:
  assumes "authenticated cb t = Inr True"
    and "handlers_get (handlers ex) (get_prop t ''capabilityId'') = Some h"
    and "validateCapability call (capabilityManager ex) (get_prop t ''capabilityId'')
           (get_prop t ''payload'') = Inr validated"
  shows "executeTask cb call now ex t =
           (case h (get_prop t ''payload'') of
              Never \<Rightarrow> (Hangs, [get_prop t ''payload''])
            | Throws err \<Rightarrow>
                (handler_failed cb now ex (get_prop t ''taskId'') (Thrown err),
                 [get_prop t ''payload''])
            | Resolves resultData \<Rightarrow>
                (case createSignedResult cb now ex (get_prop t ''taskId'') ''success''
                        resultData JUndefined of
                   Inl err \<Rightarrow>
                     (handler_failed cb now ex (get_prop t ''taskId'') err,
                      [get_prop t ''payload''])
                 | Inr signedResult \<Rightarrow> (Returns signedResult, [get_prop t ''payload''])))"
  using assms by (simp add: executeTask_def authenticated_def Let_def)

text \<open>
  The handler's argument is the payload of the task, whatever the schema returned.
\<close>

lemma handler_called_with_payload:
  assumes "authenticated cb t = Inr True"
    and "handlers_get (handlers ex) (get_prop t ''capabilityId'') = Some h"
    and "validateCapability call (capabilityManager ex) (get_prop t ''capabilityId'')
           (get_prop t ''payload'') = Inr validated"
  shows "snd (executeTask cb call now ex t) = [get_prop t ''payload'']"
  by (simp add: executeTask_handled [OF assms] split: outcome.splits sum.splits)

lemma executeTask_Returns_signed:
  assumes "fst (executeTask cb call now ex t) = Returns r"
  shows "signed_result cb ex r"
proof -
  obtain b where b: "authenticated cb t = Inr b"
    using authenticated_returns by blast
  show ?thesis
  proof (cases b)
    case False
    with b have "authenticated cb t = Inr False"
      by simp
    from assms [unfolded executeTask_rejected [OF this]] show ?thesis
      by (auto intro: settle_signed)
  next
    case True
    with b have ok: "authenticated cb t = Inr True"
      by simp
    show ?thesis
    proof (cases "handlers_get (handlers ex) (get_prop t ''capabilityId'')")
      case None
      from assms [unfolded executeTask_not_supported [OF ok None]] show ?thesis
        by (auto split: sum.splits intro: settle_signed)
    next
      case (Some h)
      show ?thesis
      proof (cases "validateCapability call (capabilityManager ex) (get_prop t ''capabilityId'')
                      (get_prop t ''payload'')")
        case (Inl e)
        from assms [unfolded executeTask_invalid [OF ok Some Inl]] show ?thesis
          by (auto split: sum.splits intro: settle_signed)
      next
        case (Inr validated)
        from assms [unfolded executeTask_handled [OF ok Some Inr]] show ?thesis
          by (auto split: outcome.splits sum.splits
              intro: createSignedResult_signed handler_failed_signed)
      qed
    qed
  qed
qed

lemma executeTask_returns:
  assumes "can_sign cb ex" and "answers call ex t"
  shows "\<exists>r. fst (executeTask cb call now ex t) = Returns r"
proof -
  note returns = settle_returns [OF assms(1), of now "get_prop t ''taskId''"]
  obtain b where b: "authenticated cb t = Inr b"
    using authenticated_returns by blast
  show ?thesis
  proof (cases b)
    case False
    with b have "authenticated cb t = Inr False"
      by simp
    then show ?thesis
      using returns by (simp add: executeTask_rejected)
  next
    case True
    with b have ok: "authenticated cb t = Inr True"
      by simp
    show ?thesis
    proof (cases "handlers_get (handlers ex) (get_prop t ''capabilityId'')")
      case None
      with assms(2) obtain d where "not_supported call (get_prop t ''capabilityId'') = Inr d"
        by (auto simp: answers_def Let_def split: sum.splits)
      then show ?thesis
        using returns by (simp add: executeTask_not_supported [OF ok None])
    next
      case (Some h)
      show ?thesis
      proof (cases "validateCapability call (capabilityManager ex) (get_prop t ''capabilityId'')
                      (get_prop t ''payload'')")
        case (Inl e)
        with assms(2) Some obtain m d where "message_of e = Inr m"
          "validation_failed call m = Inr d"
          by (auto simp: answers_def Let_def split: sum.splits)
        then show ?thesis
          using returns by (simp add: executeTask_invalid [OF ok Some Inl])
      next
        case (Inr validated)
        show ?thesis
        proof (cases "h (get_prop t ''payload'')")
          case (Resolves resultData)
          obtain v where "createSignedResult cb now ex (get_prop t ''taskId'') ''success''
                            resultData JUndefined = Inr v"
            using createSignedResult_returns [OF assms(1)] by blast
          with Resolves show ?thesis
            by (simp add: executeTask_handled [OF ok Some Inr])
        next
          case (Throws err)
          with assms(2) Some Inr obtain m where "message_of (Thrown err) = Inr m"
            by (auto simp: answers_def Let_def split: sum.splits)
          from handler_failed_returns [OF assms(1) this, of now "get_prop t ''taskId''"] Throws
          show ?thesis
            by (auto simp: executeTask_handled [OF ok Some Inr])
        next
          case Never
          with assms(2) Some Inr show ?thesis
            by (simp add: answers_def Let_def)
        qed
      qed
    qed
  qed
qed

subsection \<open>The concrete executor\<close>

lemma demo_capability_id: "cap_id demo_capability = ''cap_mathadd_1700000000002''"
  by code_simp


lemma demo_executor_identity: "identity demo_executor = demo_identity"
  by (simp add: demo_executor_def executor_with_def addCapability_def registerCapability_def
      new_Executor_def Let_def)



lemma can_sign_demo: "can_sign demo_crypto demo_executor"
  by (simp add: can_sign_def demo_executor_identity demo_identity_def demo_crypto_def)

lemma demo_task_capabilityId:
  "get_prop (demo_task p) ''capabilityId'' = JStr ''cap_mathadd_1700000000002''"
proof -
  obtain sg where "sign demo_crypto demo_requester
      (JObj [(''taskId'', JStr ''0b5c1f9e''), (''requesterId'', JStr (identity_id demo_requester)),
             (''capabilityId'', JStr ''cap_mathadd_1700000000002''), (''payload'', p),
             (''timestamp'', JNum 1700000000003)]) = Inr sg"
    by (simp add: sign_def demo_crypto_def demo_requester_def)
  then show ?thesis
    by (simp add: demo_task_def demo_task_for_def createTask_def get_prop_def)
qed

subsection \<open>The signed bytes of a task\<close>

lemma dataToVerify_set_prop:
  assumes "field \<in> set signed_fields"
  shows "dataToVerify (set_prop t field v) =
    JObj (set_prop [(''taskId'', get_prop t ''taskId''),
                    (''requesterId'', get_prop t ''requesterId''),
                    (''capabilityId'', get_prop t ''capabilityId''),
                    (''payload'', get_prop t ''payload''),
                    (''timestamp'', get_prop t ''timestamp'')] field v)"
  using assms by (auto simp: signed_fields_def dataToVerify_def get_prop_set_prop)

lemma signed_bytes_changed:
  assumes field: "field \<in> set signed_fields"
    and old: "clean (get_prop t field)"
    and new: "clean v"
    and changed: "\<not> same_value (get_prop t field) v"
  shows "signed_bytes (set_prop t field v) \<noteq> signed_bytes t"
proof -
  define five where "five = [(''taskId'', get_prop t ''taskId''),
                    (''requesterId'', get_prop t ''requesterId''),
                    (''capabilityId'', get_prop t ''capabilityId''),
                    (''payload'', get_prop t ''payload''),
                    (''timestamp'', get_prop t ''timestamp'')]"
  from field have same: "get_prop five field = get_prop t field"
    by (auto simp: five_def signed_fields_def get_prop_def)
  from field have key: "field \<in> set (map fst five)"
    by (simp add: five_def signed_fields_def)
  have keys: "distinct (map fst five)"
    by (simp add: five_def)
  have differ: "stableStringify (JObj (set_prop five field v)) \<noteq> stableStringify (JObj five)"
  proof (rule changed_value_changes_canonical [OF key keys])
    show "clean (get_prop five field)"
      unfolding same by (rule old)
    show "clean v"
      by (rule new)
    show "\<not> same_value (get_prop five field) v"
      unfolding same by (rule changed)
  qed
  obtain bytes where bytes: "stableStringify (JObj five) = Some bytes"
    using canonical_object by blast
  obtain bytes' where bytes': "stableStringify (JObj (set_prop five field v)) = Some bytes'"
    using canonical_object by blast
  from differ have "bytes' \<noteq> bytes"
    unfolding bytes bytes' by simp
  moreover have "signed_bytes t = bytes"
    unfolding signed_bytes_def canonical_def dataToVerify_def five_def [symmetric] bytes by simp
  moreover have "signed_bytes (set_prop t field v) = bytes'"
    unfolding signed_bytes_def canonical_def dataToVerify_set_prop [OF field]
      five_def [symmetric] bytes' by simp
  ultimately show ?thesis
    by simp
qed

lemma authenticated_signed_bytes:
  "authenticated cb t =
     (case backend_verify cb (signed_bytes t) (get_prop t ''publicKey'') (get_prop t ''signature'') of
        Inl err \<Rightarrow> Inr False
      | Inr ok \<Rightarrow> Inr ok)"
proof -
  obtain bytes where bytes: "stableStringify (dataToVerify t) = Some bytes"
    unfolding dataToVerify_def using canonical_object by blast
  then show ?thesis
    by (simp add: authenticated_def verify_def signed_bytes_def canonical_def)
qed

subsection \<open>The claims about executeTask\<close>

text \<open>
  Claim C1 at a payload with a field the schema does not declare. The schema
  validation returns the payload without the field \<open>admin\<close>; \<open>executeTask\<close> drops that
  value and calls the handler with the payload as the task carried it, \<open>admin\<close>
  included, and the task succeeds.
\<close>

theorem handler_gets_raw_payload:
  "validateCapability demo_calls (capabilityManager demo_executor)
     (JStr ''cap_mathadd_1700000000002'')
     (JObj [(''a'', JNum 2), (''b'', JNum 3), (''admin'', JBool True)])
     = Inr (JObj [(''a'', JNum 2), (''b'', JNum 3)])
   \<and> snd (executeTask demo_crypto demo_calls 1700000000004 demo_executor
        (demo_task (JObj [(''a'', JNum 2), (''b'', JNum 3), (''admin'', JBool True)])))
     = [JObj [(''a'', JNum 2), (''b'', JNum 3), (''admin'', JBool True)]]
   \<and> returned_field (fst (executeTask demo_crypto demo_calls 1700000000004 demo_executor
        (demo_task (JObj [(''a'', JNum 2), (''b'', JNum 3), (''admin'', JBool True)]))))
        ''status'' = JStr ''success''"
  by code_simp

text \<open>
  Claim C3, as the code has it. Take a task whose signature verifies and give one of
  the signed fields \<open>taskId\<close>, \<open>requesterId\<close>, \<open>capabilityId\<close>, \<open>payload\<close>, \<open>timestamp\<close>
  another value, where the old and the new value are clean (no \<open>undefined\<close> and no
  function anywhere inside) and differ by more than the order of the keys of their
  objects. Then the bytes that are checked against the signature differ from the bytes
  that were signed. If the backend does not accept the task's signature for these
  other bytes, and the executor's key signs, \<open>executeTask\<close> returns the failure result
  with the error \<open>Invalid Task Signature: Auth Failed\<close>, signed by the backend with the
  executor's key over the bytes of its other fields, and calls no handler.
\<close>

theorem tampered_task_rejected:
  assumes "authenticated cb t = Inr True"
    and "field \<in> set signed_fields"
    and "clean (get_prop t field)"
    and "clean v"
    and "\<not> same_value (get_prop t field) v"
    and "signed_bytes (set_prop t field v) \<noteq> signed_bytes t
           \<longrightarrow> backend_verify cb (signed_bytes (set_prop t field v))
                 (get_prop t ''publicKey'') (get_prop t ''signature'') \<noteq> Inr True"
    and "can_sign cb ex"
  shows "signed_bytes (set_prop t field v) \<noteq> signed_bytes t
         \<and> (\<exists>sg. executeTask cb call now ex (set_prop t field v) =
               (Returns (JObj (result_fields now ex (get_prop (set_prop t field v) ''taskId'')
                                 ''failure'' ''error'' (JStr ''Invalid Task Signature: Auth Failed'')
                               @ [(''signature'', JStr sg)])), [])
             \<and> backend_sign cb (privateKey (identity ex))
                 (result_text (result_fields now ex (get_prop (set_prop t field v) ''taskId'')
                    ''failure'' ''error'' (JStr ''Invalid Task Signature: Auth Failed'')))
                = Inr sg)"
proof -
  let ?t' = "set_prop t field v"
  from assms(2) have same: "get_prop ?t' ''signature'' = get_prop t ''signature''"
      "get_prop ?t' ''publicKey'' = get_prop t ''publicKey''"
    by (auto simp: signed_fields_def get_prop_set_prop)
  have differ: "signed_bytes ?t' \<noteq> signed_bytes t"
    using assms(2,3,4,5) by (rule signed_bytes_changed)
  with assms(6)
  have "backend_verify cb (signed_bytes ?t') (get_prop t ''publicKey'') (get_prop t ''signature'')
      \<noteq> Inr True"
    by blast
  then have "authenticated cb ?t' = Inr False"
    by (auto simp: authenticated_signed_bytes same split: sum.splits)
  then have "executeTask cb call now ex ?t' =
      (settle (createSignedResult cb now ex (get_prop ?t' ''taskId'') ''failure'' JNull
         (JStr ''Invalid Task Signature: Auth Failed'')), [])"
    by (rule executeTask_rejected)
  with failure_result [OF assms(7), of now "get_prop ?t' ''taskId''"
      "JStr ''Invalid Task Signature: Auth Failed''"] differ
  show ?thesis
    by (auto simp: default_null_def)
qed

text \<open>
  The requester's task for the payload of \<open>a = 2\<close> and \<open>b = 3\<close>; the payload is
  replaced by one with \<open>b = 4\<close>.
\<close>

theorem tampered_task_rejected_witness:
  "\<exists>sg. fst (executeTask demo_crypto demo_calls 1700000000004 demo_executor
            (set_prop (demo_task demo_payload) ''payload''
               (JObj [(''a'', JNum 2), (''b'', JNum 4)])))
         = Returns (JObj [(''taskId'', JStr ''0b5c1f9e''),
                          (''executorId'', JStr ''did:mtp:AlphaNode:1700000000000''),
                          (''status'', JStr ''failure''),
                          (''timestamp'', JNum 1700000000004),
                          (''error'', JStr ''Invalid Task Signature: Auth Failed''),
                          (''signature'', JStr sg)])"
proof -
  let ?v = "JObj [(''a'', JNum 2), (''b'', JNum 4)]"
  have valid: "authenticated demo_crypto (demo_task demo_payload) = Inr True"
    by code_simp
  have field: "''payload'' \<in> set signed_fields"
    by (simp add: signed_fields_def)
  have old: "clean (get_prop (demo_task demo_payload) ''payload'')"
    by code_simp
  have new: "clean ?v"
    by code_simp
  have changed: "\<not> same_value (get_prop (demo_task demo_payload) ''payload'') ?v"
    by code_simp
  have refused: "signed_bytes (set_prop (demo_task demo_payload) ''payload'' ?v)
        \<noteq> signed_bytes (demo_task demo_payload)
      \<longrightarrow> backend_verify demo_crypto (signed_bytes (set_prop (demo_task demo_payload) ''payload'' ?v))
            (get_prop (demo_task demo_payload) ''publicKey'')
            (get_prop (demo_task demo_payload) ''signature'') \<noteq> Inr True"
    by code_simp
  have taskId: "get_prop (set_prop (demo_task demo_payload) ''payload'' ?v) ''taskId''
      = JStr ''0b5c1f9e''"
    by code_simp
  from tampered_task_rejected [OF valid field old new changed refused can_sign_demo,
      of demo_calls 1700000000004]
  show ?thesis
    by (auto simp: taskId result_fields_def demo_executor_identity demo_identity_def)
qed

text \<open>
  Claim C3 fails where the change leaves the canonical form as it was. The task's
  signature verifies; its payload is replaced by one that has a further field \<open>admin\<close>
  with the value \<open>undefined\<close>, which the canonical form omits. The signed data has the
  same canonical form, the task is accepted, and the handler runs on the changed
  payload.
\<close>

theorem tampering_undetected_counterexample:
  "authenticated demo_crypto (demo_task demo_payload) = Inr True
   \<and> JObj [(''a'', JNum 2), (''b'', JNum 3), (''admin'', JUndefined)] \<noteq> demo_payload
   \<and> stableStringify (dataToVerify (set_prop (demo_task demo_payload) ''payload''
           (JObj [(''a'', JNum 2), (''b'', JNum 3), (''admin'', JUndefined)])))
       = stableStringify (dataToVerify (demo_task demo_payload))
   \<and> returned_field (fst (executeTask demo_crypto demo_calls 1700000000004 demo_executor
        (set_prop (demo_task demo_payload) ''payload''
           (JObj [(''a'', JNum 2), (''b'', JNum 3), (''admin'', JUndefined)])))) ''status''
       = JStr ''success''
   \<and> returned_field (fst (executeTask demo_crypto demo_calls 1700000000004 demo_executor
        (set_prop (demo_task demo_payload) ''payload''
           (JObj [(''a'', JNum 2), (''b'', JNum 3), (''admin'', JUndefined)])))) ''error''
       \<noteq> JStr ''Invalid Task Signature: Auth Failed''
   \<and> snd (executeTask demo_crypto demo_calls 1700000000004 demo_executor
        (set_prop (demo_task demo_payload) ''payload''
           (JObj [(''a'', JNum 2), (''b'', JNum 3), (''admin'', JUndefined)])))
       = [JObj [(''a'', JNum 2), (''b'', JNum 3), (''admin'', JUndefined)]]"
  by code_simp

text \<open>
  Claim C4, as the code has it. For every task, a result that \<open>executeTask\<close> returns has
  the fields \<open>taskId\<close>, \<open>executorId\<close>, \<open>status\<close>, \<open>timestamp\<close>, one of \<open>result\<close> and
  \<open>error\<close>, and \<open>signature\<close>: \<open>result\<close> with the status \<open>success\<close>, \<open>error\<close> with the status
  \<open>failure\<close>; and its signature is the one the backend makes with the executor's
  private key for the bytes of all the other fields. \<open>executeTask\<close> does return a
  result whenever the executor's key signs and the task is one that it answers: the
  values quoted in a diagnostic convert to strings, the schema returns or throws
  something that has a message, and the handler settles, with something that has a
  message if it rejects. And when the handler of a task that passed the signature
  check and the schema never settles, \<open>executeTask\<close> stays pending, with the handler
  called once.
\<close>

theorem executeTask_result_signed:
  "(\<forall>r. fst (executeTask cb call now ex t) = Returns r \<longrightarrow> signed_result cb ex r)
   \<and> (can_sign cb ex \<and> answers call ex t
        \<longrightarrow> (\<exists>r. fst (executeTask cb call now ex t) = Returns r))
   \<and> (authenticated cb t = Inr True
        \<and> handlers_get (handlers ex) (get_prop t ''capabilityId'') = Some h
        \<and> validateCapability call (capabilityManager ex) (get_prop t ''capabilityId'')
              (get_prop t ''payload'') = Inr validated
        \<and> h (get_prop t ''payload'') = Never
        \<longrightarrow> executeTask cb call now ex t = (Hangs, [get_prop t ''payload'']))"
proof (intro conjI allI impI)
  fix r assume "fst (executeTask cb call now ex t) = Returns r"
  then show "signed_result cb ex r"
    by (rule executeTask_Returns_signed)
next
  assume "can_sign cb ex \<and> answers call ex t"
  then show "\<exists>r. fst (executeTask cb call now ex t) = Returns r"
    using executeTask_returns by blast
next
  assume pending: "authenticated cb t = Inr True
    \<and> handlers_get (handlers ex) (get_prop t ''capabilityId'') = Some h
    \<and> validateCapability call (capabilityManager ex) (get_prop t ''capabilityId'')
          (get_prop t ''payload'') = Inr validated
    \<and> h (get_prop t ''payload'') = Never"
  then have "executeTask cb call now ex t =
      (case h (get_prop t ''payload'') of
         Never \<Rightarrow> (Hangs, [get_prop t ''payload''])
       | Throws err \<Rightarrow>
           (handler_failed cb now ex (get_prop t ''taskId'') (Thrown err),
            [get_prop t ''payload''])
       | Resolves resultData \<Rightarrow>
           (case createSignedResult cb now ex (get_prop t ''taskId'') ''success''
                   resultData JUndefined of
              Inl err \<Rightarrow>
                (handler_failed cb now ex (get_prop t ''taskId'') err,
                 [get_prop t ''payload''])
            | Inr signedResult \<Rightarrow> (Returns signedResult, [get_prop t ''payload''])))"
    by (intro executeTask_handled) simp_all
  with pending show "executeTask cb call now ex t = (Hangs, [get_prop t ''payload''])"
    by simp
qed

text \<open>
  The requester's task for the payload of \<open>a = 2\<close> and \<open>b = 3\<close>: the result is the
  success with the answer 5. With a handler that never settles in the place of the
  adding one, the same task stays pending.
\<close>

theorem executeTask_result_signed_witness:
  "(\<exists>r. fst (executeTask demo_crypto demo_calls 1700000000004 demo_executor
              (demo_task demo_payload)) = Returns r
        \<and> signed_result demo_crypto demo_executor r
        \<and> returned_field (Returns r) ''status'' = JStr ''success''
        \<and> returned_field (Returns r) ''result'' = JObj [(''answer'', JNum 5)])
   \<and> executeTask demo_crypto demo_calls 1700000000004
         (executor_with example_input_schema (\<lambda>payload. Never)) (demo_task demo_payload)
       = (Hangs, [demo_payload])"
proof -
  let ?never = "executor_with example_input_schema (\<lambda>payload. Never)"
  have "answers demo_calls demo_executor (demo_task demo_payload)"
    by code_simp
  with can_sign_demo
    executeTask_result_signed [of demo_crypto demo_calls 1700000000004 demo_executor
      "demo_task demo_payload"]
  obtain r where r: "fst (executeTask demo_crypto demo_calls 1700000000004 demo_executor
        (demo_task demo_payload)) = Returns r" and signed: "signed_result demo_crypto demo_executor r"
    by blast
  have "returned_field (fst (executeTask demo_crypto demo_calls 1700000000004 demo_executor
        (demo_task demo_payload))) ''status'' = JStr ''success''"
    "returned_field (fst (executeTask demo_crypto demo_calls 1700000000004 demo_executor
        (demo_task demo_payload))) ''result'' = JObj [(''answer'', JNum 5)]"
    by code_simp+
  with r signed have returned: "\<exists>r. fst (executeTask demo_crypto demo_calls 1700000000004
        demo_executor (demo_task demo_payload)) = Returns r
      \<and> signed_result demo_crypto demo_executor r
      \<and> returned_field (Returns r) ''status'' = JStr ''success''
      \<and> returned_field (Returns r) ''result'' = JObj [(''answer'', JNum 5)]"
    by simp
  have valid: "authenticated demo_crypto (demo_task demo_payload) = Inr True"
    by code_simp
  have h: "handlers_get (handlers ?never) (get_prop (demo_task demo_payload) ''capabilityId'')
      = Some (\<lambda>payload. Never)"
    using demo_capability_id
    by (simp add: demo_task_capabilityId handlers_get_def executor_with_def demo_capability_def
        addCapability_def registerCapability_def new_Executor_def Let_def)
  have passed: "validateCapability demo_calls (capabilityManager ?never)
      (get_prop (demo_task demo_payload) ''capabilityId'')
      (get_prop (demo_task demo_payload) ''payload'') = Inr demo_payload"
    by code_simp
  have payload: "get_prop (demo_task demo_payload) ''payload'' = demo_payload"
    by code_simp
  from executeTask_result_signed [of demo_crypto demo_calls 1700000000004 ?never
      "demo_task demo_payload" "\<lambda>payload. Never" demo_payload] valid h passed
  have "executeTask demo_crypto demo_calls 1700000000004 ?never (demo_task demo_payload)
      = (Hangs, [demo_payload])"
    by (simp add: payload)
  with returned show ?thesis
    by blast
qed

text \<open>
  Claim C4 fails where \<open>executeTask\<close> ends without a result. Each of these tasks is
  signed by the requester and passes the signature check. A handler that never settles
  leaves the promise pending. The promise is rejected, with nothing signed, when the
  task's \<open>capabilityId\<close> is the object \<open>{toString: 1}\<close>, which has no handler and no
  conversion to a string; when the handler rejects with \<open>undefined\<close>, or the schema
  throws \<open>undefined\<close>, which has no \<open>message\<close>; when the schema throws an error whose
  \<open>message\<close> is the object \<open>{toString: 1}\<close>; and when the backend does not sign with
  the executor's key.
\<close>

theorem unsigned_exits_counterexample:
  "authenticated demo_crypto (demo_task demo_payload) = Inr True
   \<and> authenticated demo_crypto (demo_task_for (JObj [(''toString'', JNum 1)]) demo_payload)
       = Inr True
   \<and> fst (executeTask demo_crypto demo_calls 1700000000004
        (executor_with example_input_schema (\<lambda>payload. Never)) (demo_task demo_payload))
       = Hangs
   \<and> fst (executeTask demo_crypto demo_calls 1700000000004 demo_executor
        (demo_task_for (JObj [(''toString'', JNum 1)]) demo_payload))
       = Raises (TypeError ''Cannot convert object to primitive value'')
   \<and> fst (executeTask demo_crypto demo_calls 1700000000004
        (executor_with example_input_schema (\<lambda>payload. Throws JUndefined))
        (demo_task demo_payload))
       = Raises (TypeError (''Cannot read properties of undefined (reading ''
                   @ [CHR 0x27] @ ''message'' @ [CHR 0x27] @ '')''))
   \<and> fst (executeTask demo_crypto demo_calls 1700000000004
        (executor_with (\<lambda>input. Inl (Thrown JUndefined)) example_handler)
        (demo_task demo_payload))
       = Raises (TypeError (''Cannot read properties of undefined (reading ''
                   @ [CHR 0x27] @ ''message'' @ [CHR 0x27] @ '')''))
   \<and> fst (executeTask demo_crypto demo_calls 1700000000004
        (executor_with
           (\<lambda>input. Inl (Thrown (JObj [(''message'', JObj [(''toString'', JNum 1)])])))
           example_handler)
        (demo_task demo_payload))
       = Raises (TypeError ''Cannot convert object to primitive value'')
   \<and> fst (executeTask demo_crypto demo_calls 1700000000004 keyless_executor
        (demo_task demo_payload))
       = Raises (Error ''no key'')"
  by code_simp



end
